theory Spec2Isabelle
  imports Complex_Main "HOL-Library.Sublist" "HOL-Library.Log_Nat"
begin

section \<open>The download routine of terabox.py\<close>

text \<open>
  The development embeds \<^verbatim>\<open>download_video\<close> (terabox.py, lines 85 to 169): the call of the
  resolution API, the navigation of its JSON payload, the creation of the destination file,
  the chunked download with its progress messages, and the two exception handlers.

  Everything the function reads from outside is an input of the model, collected in the
  record \<open>world\<close>: what each network call answers, whether the destination file can be
  opened, the clock readings, and whether each call of \<^verbatim>\<open>bot.edit_message_text\<close>
  succeeds. Everything it leaves behind is in the record \<open>state\<close>: the files on disk, the
  calls of \<^verbatim>\<open>bot.edit_message_text\<close> in order, and the lines handed to the logger.

  A Python float is the rational number it denotes, and every operation on floats rounds
  its exact result to the nearest double (\<open>fl\<close> below), so \<^verbatim>\<open>percentage\<close>, \<^verbatim>\<open>speed\<close> and
  the clock are of type \<open>rat\<close>. Writes to the open file are taken to succeed. The text
  rendered by \<^verbatim>\<open>format_progress_bar\<close> is kept as the tuple of its arguments.
\<close>

subsection \<open>Exceptions\<close>

datatype error =
    RequestException
  | ApiRequestFailed int
  | InvalidJsonResponse
  | NoValidDownloadLinks
  | VideoDownloadFailed int
  | KeyError string
  | IndexError
  | TypeError
  | ValueError
  | ZeroDivisionError
  | OSError
  | TelegramError

text \<open>
  \<open>RequestException\<close> stands for every \<^verbatim>\<open>requests.exceptions.RequestException\<close>; the four
  constructors after it are the \<^verbatim>\<open>Exception(...)\<close> values raised at lines 96, 101, 105
  and 120; \<open>TelegramError\<close> is whatever \<^verbatim>\<open>bot.edit_message_text\<close> raises.
\<close>

definition bind_err :: "error + 'a \<Rightarrow> ('a \<Rightarrow> error + 'b) \<Rightarrow> error + 'b" where
  "bind_err m f = (case m of Inl e \<Rightarrow> Inl e | Inr x \<Rightarrow> f x)"

subsection \<open>Python's floats\<close>

text \<open>
  A float is an IEEE 754 double: a significand of 53 bits and a power of two. \<open>fl x\<close> is
  the double nearest to \<open>x\<close>, a tie going to the even significand, as the hardware rounds.
  The exponent is not bounded here: the doubles beyond \<open>1.8e308\<close> (where Python raises
  \<^verbatim>\<open>OverflowError\<close> or gives \<^verbatim>\<open>inf\<close>) and below \<open>2.3e-308\<close> (subnormal) are not modelled.
\<close>

text \<open>The nearest integer, a tie going to the even one.\<close>

definition round_even :: "rat \<Rightarrow> int" where
  "round_even x =
     (if x - of_int \<lfloor>x\<rfloor> < 1 / 2 \<or> (x - of_int \<lfloor>x\<rfloor> = 1 / 2 \<and> even \<lfloor>x\<rfloor>)
      then \<lfloor>x\<rfloor> else \<lfloor>x\<rfloor> + 1)"

text \<open>The \<open>e\<close> with \<open>2^e \<le> |x| < 2^(e+1)\<close>, for \<open>x\<close> other than 0.\<close>

definition exponent :: "rat \<Rightarrow> int" where
  "exponent x =
     (if 1 \<le> \<bar>x\<bar> then bitlen \<lfloor>\<bar>x\<bar>\<rfloor> - 1 else - bitlen (\<lceil>1 / \<bar>x\<bar>\<rceil> - 1))"

definition fl :: "rat \<Rightarrow> rat" where
  "fl x = (if x = 0 then 0
           else of_int (round_even (x * 2 powi (52 - exponent x))) * 2 powi (exponent x - 52))"

text \<open>
  \<^verbatim>\<open>x - y\<close> for two floats; the int \<open>0\<close> that \<^verbatim>\<open>last_percentage_update\<close> starts with
  converts to the float \<open>0\<close>.
\<close>

definition float_sub :: "rat \<Rightarrow> rat \<Rightarrow> rat" where
  "float_sub x y = fl (x - y)"

text \<open>\<^verbatim>\<open>a / b\<close> for two ints: the double nearest to the quotient; a zero divisor raises.\<close>

definition int_truediv :: "int \<Rightarrow> int \<Rightarrow> error + rat" where
  "int_truediv a b = (if b = 0 then Inl ZeroDivisionError else Inr (fl (of_int a / of_int b)))"

text \<open>\<^verbatim>\<open>a / y\<close> for an int and a float: the int is converted to a float, then divided.\<close>

definition int_float_truediv :: "int \<Rightarrow> rat \<Rightarrow> error + rat" where
  "int_float_truediv a y =
     (if y = 0 then Inl ZeroDivisionError else Inr (fl (fl (of_int a) / y)))"

subsection \<open>JSON values and the Python operations applied to them\<close>

text \<open>A Python dict is the list of its items; the keys of a dict are distinct.\<close>

datatype json =
    JNull
  | JBool bool
  | JNum rat
  | JStr string
  | JArr "json list"
  | JObj "(string \<times> json) list"

fun truthy :: "json \<Rightarrow> bool" where
  "truthy JNull = False"
| "truthy (JBool b) = b"
| "truthy (JNum n) = (n \<noteq> 0)"
| "truthy (JStr s) = (s \<noteq> [])"
| "truthy (JArr xs) = (xs \<noteq> [])"
| "truthy (JObj kvs) = (kvs \<noteq> [])"

text \<open>\<^verbatim>\<open>k in v\<close> for a string \<open>k\<close>.\<close>

fun py_contains :: "string \<Rightarrow> json \<Rightarrow> error + bool" where
  "py_contains k (JObj kvs) = Inr (k \<in> set (map fst kvs))"
| "py_contains k (JArr xs) = Inr (JStr k \<in> set xs)"
| "py_contains k (JStr s) = Inr (sublist k s)"
| "py_contains k JNull = Inl TypeError"
| "py_contains k (JBool b) = Inl TypeError"
| "py_contains k (JNum n) = Inl TypeError"

text \<open>\<^verbatim>\<open>v[k]\<close> for a string \<open>k\<close>.\<close>

fun py_getitem :: "json \<Rightarrow> string \<Rightarrow> error + json" where
  "py_getitem (JObj kvs) k = (case map_of kvs k of None \<Rightarrow> Inl (KeyError k) | Some v \<Rightarrow> Inr v)"
| "py_getitem JNull k = Inl TypeError"
| "py_getitem (JBool b) k = Inl TypeError"
| "py_getitem (JNum n) k = Inl TypeError"
| "py_getitem (JStr s) k = Inl TypeError"
| "py_getitem (JArr xs) k = Inl TypeError"

text \<open>\<^verbatim>\<open>len(v)\<close>.\<close>

fun py_len :: "json \<Rightarrow> error + nat" where
  "py_len (JStr s) = Inr (length s)"
| "py_len (JArr xs) = Inr (length xs)"
| "py_len (JObj kvs) = Inr (length kvs)"
| "py_len JNull = Inl TypeError"
| "py_len (JBool b) = Inl TypeError"
| "py_len (JNum n) = Inl TypeError"

text \<open>\<^verbatim>\<open>v[0]\<close>; the keys of a parsed JSON object are strings, so \<open>0\<close> is never one.\<close>

fun py_first :: "json \<Rightarrow> error + json" where
  "py_first (JArr []) = Inl IndexError"
| "py_first (JArr (x # xs)) = Inr x"
| "py_first (JStr []) = Inl IndexError"
| "py_first (JStr (c # cs)) = Inr (JStr [c])"
| "py_first (JObj kvs) = Inl (KeyError ''0'')"
| "py_first JNull = Inl TypeError"
| "py_first (JBool b) = Inl TypeError"
| "py_first (JNum n) = Inl TypeError"

text \<open>
  Line 111: \<^verbatim>\<open>re.sub(r'[<>:"/\\|?*]+', '', title)\<close> deletes every character of the class; a
  title that is not a string makes \<^verbatim>\<open>re.sub\<close> raise \<^verbatim>\<open>TypeError\<close>.
\<close>

definition unsafe_chars :: "char list" where
  "unsafe_chars = [CHR ''<'', CHR ''>'', CHR '':'', CHR 0x22, CHR ''/'', CHR 0x5C,
                   CHR ''|'', CHR ''?'', CHR ''*'']"

definition sanitize :: "string \<Rightarrow> string" where
  "sanitize t = filter (\<lambda>c. c \<notin> set unsafe_chars) t"

fun re_sub_title :: "json \<Rightarrow> error + string" where
  "re_sub_title (JStr t) = Inr (sanitize t)"
| "re_sub_title JNull = Inl TypeError"
| "re_sub_title (JBool b) = Inl TypeError"
| "re_sub_title (JNum n) = Inl TypeError"
| "re_sub_title (JArr xs) = Inl TypeError"
| "re_sub_title (JObj kvs) = Inl TypeError"

text \<open>Line 112: \<^verbatim>\<open>os.path.join('Videos', f"{video_title}.mp4")\<close>.\<close>

definition video_path_of :: "string \<Rightarrow> string" where
  "video_path_of video_title = ''Videos/'' @ video_title @ ''.mp4''"

subsection \<open>The outside world\<close>

type_synonym bytes = "char list"

datatype 'a net = NetError | Got 'a

record api_response =
  status_code :: int
  json_body :: "json option"

text \<open>
  One iteration of \<^verbatim>\<open>iter_content\<close>: the chunk received, the reading of \<^verbatim>\<open>time()\<close> at
  line 136, and whether the call of \<^verbatim>\<open>bot.edit_message_text\<close> at line 153 returns, should
  this iteration make it. (\<^verbatim>\<open>format_progress_bar\<close>, called just before, raises only
  on a speed that is infinite or not a number, at \<^verbatim>\<open>int(size)\<close>; the floats of this model
  are finite, so the call of line 153 is the only one inside \<^verbatim>\<open>try\<close> that can fail.)
\<close>

record chunk_event =
  chunk :: bytes
  now :: rat
  deliver_ok :: bool

datatype stream_end = Eof | Broken

text \<open>
  The header \<^verbatim>\<open>content-length\<close>: missing (\<^verbatim>\<open>headers.get\<close> gives \<^verbatim>\<open>None\<close>), present
  with a value on which \<^verbatim>\<open>int\<close> raises \<^verbatim>\<open>ValueError\<close>, or present with the value \<^verbatim>\<open>int\<close>
  returns.
\<close>

datatype content_length = Absent | Unparsable | Declared int

record video_response =
  v_status_code :: int
  content_length :: content_length
  body :: "chunk_event list"
  body_end :: stream_end

text \<open>
  \<open>open_ok\<close>: whether \<^verbatim>\<open>open(video_path, 'wb')\<close> returns. \<open>start_time\<close>: the reading of
  \<^verbatim>\<open>time()\<close> at line 129. \<open>handler_edit_ok\<close>: whether the call of
  \<^verbatim>\<open>bot.edit_message_text\<close> in the handler returns.
\<close>

record world =
  api_get :: "api_response net"
  open_ok :: bool
  video_get :: "video_response net"
  start_time :: rat
  handler_edit_ok :: bool

record args =
  url :: string
  chat_id :: int
  message_id :: int
  user_mention :: string
  user_id :: int

subsection \<open>What the function leaves behind\<close>

record progress =
  filename :: string
  percentage :: rat
  done_bytes :: int
  total_size :: int
  status :: string
  speed :: rat
  p_user_mention :: string
  p_user_id :: int

datatype message =
    Progress progress
  | NetworkErrorMsg error
  | DownloadFailedMsg error

text \<open>A call \<^verbatim>\<open>bot.edit_message_text(text, chat_id, message_id)\<close> and whether it returned.\<close>

datatype edit_call = Edit (e_chat: int) (e_message: int) (e_text: message) (e_ok: bool)

datatype log_entry =
    InfoDownloaded string
  | WarnProgressFailed
  | ErrorNetwork error
  | ErrorDownload error

record state =
  fs :: "string \<rightharpoonup> bytes"
  edits :: "edit_call list"
  logged :: "log_entry list"

text \<open>\<^verbatim>\<open>open(path, 'wb')\<close> creates the file or truncates it.\<close>

definition create_file :: "string \<Rightarrow> state \<Rightarrow> state" where
  "create_file path st = st\<lparr>fs := (fs st)(path \<mapsto> [])\<rparr>"

text \<open>\<^verbatim>\<open>video_file.write(data)\<close> appends to the open file.\<close>

definition write_file :: "string \<Rightarrow> bytes \<Rightarrow> state \<Rightarrow> state" where
  "write_file path data st =
     st\<lparr>fs := (fs st)(path \<mapsto> (case fs st path of None \<Rightarrow> data | Some old \<Rightarrow> old @ data))\<rparr>"

definition add_edit :: "edit_call \<Rightarrow> state \<Rightarrow> state" where
  "add_edit c st = st\<lparr>edits := edits st @ [c]\<rparr>"

definition add_log :: "log_entry \<Rightarrow> state \<Rightarrow> state" where
  "add_log l st = st\<lparr>logged := logged st @ [l]\<rparr>"

subsection \<open>Lines 89 to 112: resolving the link\<close>

text \<open>Line 104; Python's \<^verbatim>\<open>or\<close> evaluates its operands from the left and stops early.\<close>

definition validate :: "json \<Rightarrow> error + unit" where
  "validate data =
     (if \<not> truthy data then Inl NoValidDownloadLinks
      else bind_err (py_contains ''response'' data) (\<lambda>present.
        if \<not> present then Inl NoValidDownloadLinks
        else bind_err (py_getitem data ''response'') (\<lambda>r.
          bind_err (py_len r) (\<lambda>n.
            if n = 0 then Inl NoValidDownloadLinks else Inr ()))))"

text \<open>Lines 107 to 112; the result is the link, the title and the path.\<close>

definition extract_fields :: "json \<Rightarrow> error + (json \<times> string \<times> string)" where
  "extract_fields data =
     bind_err (py_getitem data ''response'') (\<lambda>r.
     bind_err (py_first r) (\<lambda>r0.
     bind_err (py_getitem r0 ''resolutions'') (\<lambda>resolutions.
     bind_err (py_getitem resolutions ''Fast Download'') (\<lambda>fast_download_link.
     bind_err (py_getitem r0 ''title'') (\<lambda>title.
     bind_err (re_sub_title title) (\<lambda>video_title.
       Inr (fast_download_link, video_title, video_path_of video_title)))))))"

definition resolve_link :: "world \<Rightarrow> error + (json \<times> string \<times> string)" where
  "resolve_link w =
     (case api_get w of
        NetError \<Rightarrow> Inl RequestException
      | Got response \<Rightarrow>
          if status_code response \<noteq> 200 then Inl (ApiRequestFailed (status_code response))
          else (case json_body response of
                  None \<Rightarrow> Inl InvalidJsonResponse
                | Some data \<Rightarrow> bind_err (validate data) (\<lambda>_. extract_fields data)))"

subsection \<open>Lines 128 to 156: the download loop\<close>

text \<open>Line 137: \<^verbatim>\<open>100 * downloaded_length / total_length\<close>, an int divided by an int.\<close>

definition percentage_of :: "int \<Rightarrow> int \<Rightarrow> error + rat" where
  "percentage_of downloaded total_length = int_truediv (100 * downloaded) total_length"

text \<open>Line 138: \<^verbatim>\<open>downloaded_length / elapsed_time if elapsed_time > 0 else 0\<close>.\<close>

definition speed_of :: "int \<Rightarrow> rat \<Rightarrow> error + rat" where
  "speed_of downloaded elapsed_time =
     (if elapsed_time > 0 then int_float_truediv downloaded elapsed_time else Inr 0)"

text \<open>
  The variables of the loop. \<open>computed\<close> and \<open>speeds\<close> are history variables: the values
  bound to \<^verbatim>\<open>percentage\<close> at line 137 and to \<^verbatim>\<open>speed\<close> at line 138, in order. The code
  does not read them.
\<close>

record loop_state =
  downloaded_length :: int
  last_percentage_update :: rat
  computed :: "rat list"
  speeds :: "rat list"
  outer :: state

record loop_ctx =
  c_args :: args
  c_start_time :: rat
  c_video_title :: string
  c_video_path :: string
  c_total_length :: int

definition progress_message :: "loop_ctx \<Rightarrow> rat \<Rightarrow> int \<Rightarrow> rat \<Rightarrow> message" where
  "progress_message c pct downloaded spd =
     Progress \<lparr>filename = c_video_title c, percentage = pct, done_bytes = downloaded,
               total_size = c_total_length c, status = ''Downloading'', speed = spd,
               p_user_mention = user_mention (c_args c), p_user_id = user_id (c_args c)\<rparr>"

text \<open>
  The body of the loop. The first component of the result is the exception that leaves
  the loop, if one does; the state is the one reached when it was raised.
\<close>

definition step :: "loop_ctx \<Rightarrow> chunk_event \<Rightarrow> loop_state \<Rightarrow> error option \<times> loop_state" where
  "step c ev ls =
     (let downloaded = downloaded_length ls + int (length (chunk ev));
          ls1 = ls\<lparr>downloaded_length := downloaded,
                   outer := write_file (c_video_path c) (chunk ev) (outer ls)\<rparr>;
          elapsed_time = float_sub (now ev) (c_start_time c)
      in case percentage_of downloaded (c_total_length c) of
           Inl err \<Rightarrow> (Some err, ls1)
         | Inr pct \<Rightarrow>
             (case speed_of downloaded elapsed_time of
                Inl err \<Rightarrow> (Some err, ls1\<lparr>computed := computed ls1 @ [pct]\<rparr>)
              | Inr spd \<Rightarrow>
                  let ls2 = ls1\<lparr>computed := computed ls1 @ [pct],
                                speeds := speeds ls1 @ [spd]\<rparr>;
                      call = Edit (chat_id (c_args c)) (message_id (c_args c))
                               (progress_message c pct downloaded spd) (deliver_ok ev)
                  in if float_sub pct (last_percentage_update ls2) \<ge> 7
                     then (if deliver_ok ev
                           then (None, ls2\<lparr>last_percentage_update := pct,
                                           outer := add_edit call (outer ls2)\<rparr>)
                           else (None, ls2\<lparr>outer := add_log WarnProgressFailed
                                                      (add_edit call (outer ls2))\<rparr>))
                     else (None, ls2)))"

text \<open>
  The loop over \<^verbatim>\<open>iter_content\<close>: the chunks in order, then the end of the body or the
  network error that breaks it.
\<close>

fun iter_content :: "loop_ctx \<Rightarrow> stream_end \<Rightarrow> chunk_event list \<Rightarrow> loop_state
                     \<Rightarrow> error option \<times> loop_state" where
  "iter_content c Eof [] ls = (None, ls)"
| "iter_content c Broken [] ls = (Some RequestException, ls)"
| "iter_content c e (ev # evs) ls =
     (case step c ev ls of
        (Some err, ls') \<Rightarrow> (Some err, ls')
      | (None, ls') \<Rightarrow> iter_content c e evs ls')"

subsection \<open>Lines 115 to 156: the open file\<close>

definition init_loop :: "state \<Rightarrow> loop_state" where
  "init_loop st = \<lparr>downloaded_length = 0, last_percentage_update = 0, computed = [],
                  speeds = [], outer = st\<rparr>"

text \<open>What stays fixed while the loop runs.\<close>

definition ctx_of :: "args \<Rightarrow> world \<Rightarrow> string \<Rightarrow> string \<Rightarrow> int \<Rightarrow> loop_ctx" where
  "ctx_of a w video_title video_path total_length =
     \<lparr>c_args = a, c_start_time = start_time w, c_video_title = video_title,
      c_video_path = video_path, c_total_length = total_length\<rparr>"

definition stream_body :: "args \<Rightarrow> world \<Rightarrow> string \<Rightarrow> string \<Rightarrow> state \<Rightarrow> (error + int) \<times> state" where
  "stream_body a w video_title video_path st =
     (case video_get w of
        NetError \<Rightarrow> (Inl RequestException, st)
      | Got video_response \<Rightarrow>
          if v_status_code video_response \<noteq> 200
          then (Inl (VideoDownloadFailed (v_status_code video_response)), st)
          else (case content_length video_response of
                  Absent \<Rightarrow>
                    (case body_end video_response of
                       Broken \<Rightarrow> (Inl RequestException, st)
                     | Eof \<Rightarrow>
                         let content = concat (map chunk (body video_response))
                         in (Inr (int (length content)), write_file video_path content st))
                | Unparsable \<Rightarrow> (Inl ValueError, st)
                | Declared total_length \<Rightarrow>
                    (case iter_content (ctx_of a w video_title video_path total_length)
                            (body_end video_response) (body video_response) (init_loop st) of
                       (Some err, ls) \<Rightarrow> (Inl err, outer ls)
                     | (None, ls) \<Rightarrow> (Inr total_length, outer ls))))"

subsection \<open>Lines 87 to 169: the whole function\<close>

definition terminal_message :: "error \<Rightarrow> message" where
  "terminal_message e = (if e = RequestException then NetworkErrorMsg e else DownloadFailedMsg e)"

definition terminal_log :: "error \<Rightarrow> log_entry" where
  "terminal_log e = (if e = RequestException then ErrorNetwork e else ErrorDownload e)"

text \<open>
  Line 115: \<^verbatim>\<open>open\<close> raises \<^verbatim>\<open>ValueError\<close> for a path that holds a NUL character, and
  \<^verbatim>\<open>OSError\<close> when the operating system refuses.
\<close>

definition open_error :: "string \<Rightarrow> error" where
  "open_error video_path = (if CHR 0x00 \<in> set video_path then ValueError else OSError)"

text \<open>
  Lines 161 to 169: log, edit the chat message, raise again. An exception of
  \<^verbatim>\<open>bot.edit_message_text\<close> inside a handler leaves the function in place of the first.
\<close>

definition handler :: "args \<Rightarrow> world \<Rightarrow> error \<Rightarrow> state \<Rightarrow> (error + 'a) \<times> state" where
  "handler a w e st =
     (let st1 = add_log (terminal_log e) st;
          st2 = add_edit (Edit (chat_id a) (message_id a) (terminal_message e) (handler_edit_ok w)) st1
      in (Inl (if handler_edit_ok w then e else TelegramError), st2))"

definition try_body :: "args \<Rightarrow> world \<Rightarrow> state \<Rightarrow> (error + string \<times> string \<times> int) \<times> state" where
  "try_body a w st =
     (case resolve_link w of
        Inl e \<Rightarrow> (Inl e, st)
      | Inr (fast_download_link, video_title, video_path) \<Rightarrow>
          if \<not> open_ok w then (Inl (open_error video_path), st)
          else (case stream_body a w video_title video_path (create_file video_path st) of
                  (Inl e, st') \<Rightarrow> (Inl e, st')
                | (Inr total_length, st') \<Rightarrow>
                    (Inr (video_path, video_title, total_length),
                     add_log (InfoDownloaded video_title) st')))"

definition download_video :: "args \<Rightarrow> world \<Rightarrow> state \<Rightarrow> (error + string \<times> string \<times> int) \<times> state" where
  "download_video a w st =
     (case try_body a w st of
        (Inr res, st') \<Rightarrow> (Inr res, st')
      | (Inl e, st') \<Rightarrow> handler a w e st')"

subsection \<open>Reading the trace\<close>

text \<open>
  The percentages carried by the progress messages of a list of calls: of all the calls
  made (\<open>attempted\<close>), and of those that returned (\<open>delivered\<close>).
\<close>

fun progress_pct :: "edit_call \<Rightarrow> rat list" where
  "progress_pct (Edit c m (Progress p) ok) = [percentage p]"
| "progress_pct (Edit c m (NetworkErrorMsg e) ok) = []"
| "progress_pct (Edit c m (DownloadFailedMsg e) ok) = []"

definition attempted :: "edit_call list \<Rightarrow> rat list" where
  "attempted es = concat (map progress_pct es)"

definition delivered :: "edit_call list \<Rightarrow> rat list" where
  "delivered es = concat (map progress_pct (filter e_ok es))"

text \<open>The throughput carried by the progress messages of a list of calls.\<close>

fun progress_speed :: "edit_call \<Rightarrow> rat list" where
  "progress_speed (Edit c m (Progress p) ok) = [speed p]"
| "progress_speed (Edit c m (NetworkErrorMsg e) ok) = []"
| "progress_speed (Edit c m (DownloadFailedMsg e) ok) = []"

definition attempted_speeds :: "edit_call list \<Rightarrow> rat list" where
  "attempted_speeds es = concat (map progress_speed es)"

text \<open>The calls that carry a terminal text, \<open>Network Error: ...\<close> or \<open>Download failed: ...\<close>.\<close>

fun terminal :: "edit_call \<Rightarrow> bool" where
  "terminal (Edit c m (Progress p) ok) = False"
| "terminal (Edit c m (NetworkErrorMsg e) ok) = True"
| "terminal (Edit c m (DownloadFailedMsg e) ok) = True"

text \<open>
  Each value is at least 7 above the one before it, the first at least 7 above \<open>w\<close>, the
  difference being the one line 141 computes, in floats.
\<close>

fun spaced :: "rat \<Rightarrow> rat list \<Rightarrow> bool" where
  "spaced w [] = True"
| "spaced w (p # ps) = (float_sub p w \<ge> 7 \<and> spaced p ps)"

text \<open>The percentage of the most recent delivered notification, 0 when there is none.\<close>

definition watermark_of :: "rat list \<Rightarrow> rat" where
  "watermark_of ps = (if ps = [] then 0 else last ps)"

text \<open>What a run added to the calls and to the log of the state it started from.\<close>

definition new_edits :: "state \<Rightarrow> state \<Rightarrow> edit_call list" where
  "new_edits st st' = drop (length (edits st)) (edits st')"

definition new_logged :: "state \<Rightarrow> state \<Rightarrow> log_entry list" where
  "new_logged st st' = drop (length (logged st)) (logged st')"

text \<open>The bytes received once the chunks up to the one of index \<open>i\<close> are in.\<close>

definition received :: "chunk_event list \<Rightarrow> nat \<Rightarrow> int" where
  "received evs i = int (length (concat (map chunk (take (Suc i) evs))))"

section \<open>Facts about the rounding\<close>

lemma round_even_of_int [simp]: "round_even (of_int n) = n"
  by (simp add: round_even_def)

lemma round_even_bounds: "\<lfloor>x\<rfloor> \<le> round_even x" "round_even x \<le> \<lfloor>x\<rfloor> + 1"
  by (simp_all add: round_even_def)

lemma round_even_mono:
  assumes "x \<le> y"
  shows "round_even x \<le> round_even y"
proof (cases "\<lfloor>x\<rfloor> = \<lfloor>y\<rfloor>")
  case True
  then show ?thesis using assms by (auto simp: round_even_def)
next
  case False
  then have "\<lfloor>x\<rfloor> < \<lfloor>y\<rfloor>" using floor_mono [OF assms] by simp
  then have "round_even x \<le> \<lfloor>y\<rfloor>" using round_even_bounds(2) [of x] by simp
  then show ?thesis using round_even_bounds(1) [of y] by simp
qed

lemma exponent_bounds:
  assumes "x \<noteq> 0"
  shows "2 powi exponent x \<le> \<bar>x\<bar>" and "\<bar>x\<bar> < 2 powi (exponent x + 1)"
proof -
  let ?a = "\<bar>x\<bar>"
  have pos: "0 < ?a" using assms by simp
  have "2 powi exponent x \<le> ?a \<and> ?a < 2 powi (exponent x + 1)"
  proof (cases "1 \<le> ?a")
    case True
    let ?n = "\<lfloor>?a\<rfloor>"
    have n: "0 < ?n" using True by simp
    have e: "exponent x = bitlen ?n - 1" using True by (simp add: exponent_def)
    have b1: "1 \<le> bitlen ?n" using n bitlen_eq_zero_iff [of ?n] bitlen_nonneg [of ?n] by linarith
    from bitlen_bounds [OF n]
    have lo: "2 ^ nat (bitlen ?n - 1) \<le> ?n" and hi: "?n < 2 ^ nat (bitlen ?n)" by simp_all
    have "(2::rat) powi (bitlen ?n - 1) = of_int (2 ^ nat (bitlen ?n - 1))"
      using b1 by (simp add: power_int_def)
    also have "\<dots> \<le> of_int ?n" using lo by (simp only: of_int_le_iff)
    also have "\<dots> \<le> ?a" by simp
    finally have l: "2 powi exponent x \<le> ?a" by (simp add: e)
    have "?n + 1 \<le> 2 ^ nat (bitlen ?n)" using hi by simp
    then have "(of_int (?n + 1) :: rat) \<le> of_int (2 ^ nat (bitlen ?n))"
      by (simp only: of_int_le_iff)
    moreover have "?a < of_int (?n + 1)" by linarith
    moreover have "(2::rat) powi (bitlen ?n) = of_int (2 ^ nat (bitlen ?n))"
      using b1 by (simp add: power_int_def)
    ultimately have "?a < 2 powi (exponent x + 1)" by (simp add: e)
    with l show ?thesis by simp
  next
    case False
    let ?y = "1 / ?a"
    let ?N = "\<lceil>?y\<rceil>"
    have y: "1 < ?y" using False pos by simp
    have N: "0 < ?N - 1" using y by linarith
    have e: "exponent x = - bitlen (?N - 1)" using False by (simp add: exponent_def)
    let ?k = "bitlen (?N - 1)"
    have b1: "1 \<le> ?k" using N bitlen_eq_zero_iff [of "?N - 1"] bitlen_nonneg [of "?N - 1"] by linarith
    from bitlen_bounds [OF N]
    have lo: "2 ^ nat (?k - 1) \<le> ?N - 1" and hi: "?N - 1 < 2 ^ nat ?k" by simp_all
    have "?y \<le> of_int ?N" by simp
    also have "\<dots> \<le> of_int (2 ^ nat ?k)" using hi by (simp only: of_int_le_iff)
    also have "\<dots> = (2::rat) powi ?k" using b1 by (simp add: power_int_def)
    finally have "1 / ?a \<le> 2 powi ?k" .
    then have "1 \<le> 2 powi ?k * ?a" using pos by (simp add: field_simps)
    then have "1 / 2 powi ?k \<le> ?a" by (simp add: field_simps)
    then have l: "2 powi exponent x \<le> ?a" by (simp add: e power_int_minus_divide)
    have "(of_int (2 ^ nat (?k - 1)) :: rat) \<le> of_int (?N - 1)" using lo by (simp only: of_int_le_iff)
    moreover have "of_int (?N - 1) < ?y" by linarith
    moreover have "(2::rat) powi (?k - 1) = of_int (2 ^ nat (?k - 1))"
      using b1 by (simp add: power_int_def)
    ultimately have "2 powi (?k - 1) < 1 / ?a" by simp
    then have "?a * 2 powi (?k - 1) < 1" using pos by (simp add: field_simps)
    then have "?a < 1 / 2 powi (?k - 1)" by (simp add: field_simps)
    also have "\<dots> = 2 powi (- (?k - 1))" by (simp only: power_int_minus_divide)
    also have "- (?k - 1) = exponent x + 1" by (simp add: e)
    finally show ?thesis using l by simp
  qed
  then show "2 powi exponent x \<le> \<bar>x\<bar>" and "\<bar>x\<bar> < 2 powi (exponent x + 1)" by simp_all
qed

lemma pow2_less_imp_less:
  assumes "(2::rat) powi a < 2 powi b"
  shows "a < b"
proof (rule ccontr)
  assume "\<not> a < b"
  then have "(2::rat) powi b \<le> 2 powi a" by (intro power_int_increasing) simp_all
  with assms show False by simp
qed

lemma exponent_unique:
  assumes "2 powi e \<le> \<bar>x\<bar>" and "\<bar>x\<bar> < 2 powi (e + 1)"
  shows "exponent x = e"
proof -
  have nz: "x \<noteq> 0"
  proof
    assume "x = 0"
    with assms(1) have "(2::rat) powi e \<le> 0" by simp
    moreover have "(0::rat) < 2 powi e" by simp
    ultimately show False by linarith
  qed
  have "(2::rat) powi e < 2 powi (exponent x + 1)"
    using assms(1) exponent_bounds(2) [OF nz] by linarith
  then have a: "e < exponent x + 1" by (rule pow2_less_imp_less)
  have "(2::rat) powi exponent x < 2 powi (e + 1)"
    using assms(2) exponent_bounds(1) [OF nz] by linarith
  then have b: "exponent x < e + 1" by (rule pow2_less_imp_less)
  from a b show ?thesis by simp
qed

lemma exponent_mono:
  assumes "x \<noteq> 0" and "\<bar>x\<bar> \<le> \<bar>y\<bar>"
  shows "exponent x \<le> exponent y"
proof -
  have ny: "y \<noteq> 0" using assms by auto
  have "(2::rat) powi exponent x < 2 powi (exponent y + 1)"
    using exponent_bounds(1) [OF assms(1)] exponent_bounds(2) [OF ny] assms(2) by linarith
  then have "exponent x < exponent y + 1" by (rule pow2_less_imp_less)
  then show ?thesis by simp
qed

text \<open>The scaled value lies between \<open>2^52\<close> and \<open>2^53\<close>, and so does the significand.\<close>

lemma scaled_bounds:
  assumes "x \<noteq> 0"
  shows "2 ^ 52 \<le> \<bar>x\<bar> * 2 powi (52 - exponent x)"
    and "\<bar>x\<bar> * 2 powi (52 - exponent x) < 2 ^ 53"
proof -
  have p: "(0::rat) < 2 powi (52 - exponent x)" by simp
  have "(2::rat) powi exponent x * 2 powi (52 - exponent x) = 2 powi 52"
    by (simp flip: power_int_add)
  moreover have "2 powi exponent x * 2 powi (52 - exponent x) \<le> \<bar>x\<bar> * 2 powi (52 - exponent x)"
    using exponent_bounds(1) [OF assms] p by (intro mult_right_mono) simp_all
  ultimately show "2 ^ 52 \<le> \<bar>x\<bar> * 2 powi (52 - exponent x)" by simp
  have "(2::rat) powi (exponent x + 1) * 2 powi (52 - exponent x) = 2 powi 53"
    by (simp flip: power_int_add)
  moreover have "\<bar>x\<bar> * 2 powi (52 - exponent x) < 2 powi (exponent x + 1) * 2 powi (52 - exponent x)"
    using exponent_bounds(2) [OF assms] p by (intro mult_strict_right_mono) simp_all
  ultimately show "\<bar>x\<bar> * 2 powi (52 - exponent x) < 2 ^ 53" by simp
qed

lemma significand_pos:
  assumes "0 < x"
  shows "2 ^ 52 \<le> round_even (x * 2 powi (52 - exponent x))"
    and "round_even (x * 2 powi (52 - exponent x)) \<le> 2 ^ 53"
proof -
  have nz: "x \<noteq> 0" using assms by simp
  have "round_even (of_int (2 ^ 52)) \<le> round_even (x * 2 powi (52 - exponent x))"
    using scaled_bounds(1) [OF nz] assms by (intro round_even_mono) simp
  then show "2 ^ 52 \<le> round_even (x * 2 powi (52 - exponent x))"
    by (simp only: round_even_of_int)
  have "round_even (x * 2 powi (52 - exponent x)) \<le> round_even (of_int (2 ^ 53))"
    using scaled_bounds(2) [OF nz] assms by (intro round_even_mono) simp
  then show "round_even (x * 2 powi (52 - exponent x)) \<le> 2 ^ 53"
    by (simp only: round_even_of_int)
qed

lemma significand_neg:
  assumes "x < 0"
  shows "- (2 ^ 53) \<le> round_even (x * 2 powi (52 - exponent x))"
    and "round_even (x * 2 powi (52 - exponent x)) \<le> - (2 ^ 52)"
proof -
  have nz: "x \<noteq> 0" using assms by simp
  have a: "\<bar>x\<bar> * 2 powi (52 - exponent x) = - (x * 2 powi (52 - exponent x))"
    using assms by simp
  have "round_even (of_int (- (2 ^ 53))) \<le> round_even (x * 2 powi (52 - exponent x))"
    using scaled_bounds(2) [OF nz] unfolding a by (intro round_even_mono) simp
  then show "- (2 ^ 53) \<le> round_even (x * 2 powi (52 - exponent x))"
    by (simp only: round_even_of_int)
  have "round_even (x * 2 powi (52 - exponent x)) \<le> round_even (of_int (- (2 ^ 52)))"
    using scaled_bounds(1) [OF nz] unfolding a by (intro round_even_mono) simp
  then show "round_even (x * 2 powi (52 - exponent x)) \<le> - (2 ^ 52)"
    by (simp only: round_even_of_int)
qed

lemma pow2_52: "(2::rat) ^ 52 * 2 powi (e - 52) = 2 powi e"
  using power_int_add [of "2::rat" 52 "e - 52"] by simp

lemma pow2_53: "(2::rat) ^ 53 * 2 powi (e - 52) = 2 powi (e + 1)"
  using power_int_add [of "2::rat" 53 "e - 52"] by (simp add: add.commute)

lemma fl_pos:
  assumes "0 < x"
  shows "2 powi exponent x \<le> fl x" and "fl x \<le> 2 powi (exponent x + 1)"
proof -
  let ?m = "round_even (x * 2 powi (52 - exponent x))"
  have f: "fl x = of_int ?m * 2 powi (exponent x - 52)" using assms by (simp add: fl_def)
  have p: "(0::rat) \<le> 2 powi (exponent x - 52)" by simp
  have "(of_int (2 ^ 52) :: rat) \<le> of_int ?m"
    using significand_pos(1) [OF assms] by (simp only: of_int_le_iff)
  then have "(2::rat) ^ 52 \<le> of_int ?m" by simp
  then have "(2::rat) ^ 52 * 2 powi (exponent x - 52) \<le> of_int ?m * 2 powi (exponent x - 52)"
    using p by (rule mult_right_mono)
  then show "2 powi exponent x \<le> fl x" unfolding f pow2_52 .
  have "(of_int ?m :: rat) \<le> of_int (2 ^ 53)"
    using significand_pos(2) [OF assms] by (simp only: of_int_le_iff)
  then have "(of_int ?m :: rat) \<le> 2 ^ 53" by simp
  then have "of_int ?m * 2 powi (exponent x - 52) \<le> (2::rat) ^ 53 * 2 powi (exponent x - 52)"
    using p by (rule mult_right_mono)
  then show "fl x \<le> 2 powi (exponent x + 1)" unfolding f pow2_53 .
qed

lemma fl_neg:
  assumes "x < 0"
  shows "- (2 powi (exponent x + 1)) \<le> fl x" and "fl x \<le> - (2 powi exponent x)"
proof -
  let ?m = "round_even (x * 2 powi (52 - exponent x))"
  have f: "fl x = of_int ?m * 2 powi (exponent x - 52)" using assms by (simp add: fl_def)
  have p: "(0::rat) \<le> 2 powi (exponent x - 52)" by simp
  have "(of_int ?m :: rat) \<le> of_int (- (2 ^ 52))"
    using significand_neg(2) [OF assms] by (simp only: of_int_le_iff)
  then have "(of_int ?m :: rat) \<le> - (2 ^ 52)" by simp
  then have "of_int ?m * 2 powi (exponent x - 52) \<le> - ((2::rat) ^ 52) * 2 powi (exponent x - 52)"
    using p by (rule mult_right_mono)
  then show "fl x \<le> - (2 powi exponent x)" unfolding f mult_minus_left pow2_52 .
  have "(of_int (- (2 ^ 53)) :: rat) \<le> of_int ?m"
    using significand_neg(1) [OF assms] by (simp only: of_int_le_iff)
  then have "- ((2::rat) ^ 53) \<le> of_int ?m" by simp
  then have "- ((2::rat) ^ 53) * 2 powi (exponent x - 52) \<le> of_int ?m * 2 powi (exponent x - 52)"
    using p by (rule mult_right_mono)
  then show "- (2 powi (exponent x + 1)) \<le> fl x" unfolding f mult_minus_left pow2_53 .
qed

lemma fl_same_exponent:
  assumes "x \<le> y" and "x \<noteq> 0" and "y \<noteq> 0" and "exponent x = exponent y"
  shows "fl x \<le> fl y"
proof -
  have p: "(0::rat) < 2 powi (52 - exponent y)" and q: "(0::rat) < 2 powi (exponent y - 52)"
    by simp_all
  have "x * 2 powi (52 - exponent y) \<le> y * 2 powi (52 - exponent y)"
    using assms(1) p by (intro mult_right_mono) simp_all
  then have "round_even (x * 2 powi (52 - exponent y)) \<le> round_even (y * 2 powi (52 - exponent y))"
    by (rule round_even_mono)
  then have "(of_int (round_even (x * 2 powi (52 - exponent y))) :: rat)
               \<le> of_int (round_even (y * 2 powi (52 - exponent y)))"
    by (simp only: of_int_le_iff)
  then have "of_int (round_even (x * 2 powi (52 - exponent y))) * 2 powi (exponent y - 52)
               \<le> of_int (round_even (y * 2 powi (52 - exponent y))) * (2::rat) powi (exponent y - 52)"
    using q by (intro mult_right_mono) simp_all
  then show ?thesis using assms(2-4) by (simp add: fl_def)
qed

lemma fl_mono:
  assumes "x \<le> y"
  shows "fl x \<le> fl y"
proof -
  consider "x = 0" | "y = 0" | "x < 0" "0 < y" | "0 < x" "0 < y" | "x < 0" "y < 0"
    using assms by linarith
  then show ?thesis
  proof cases
    case 1
    show ?thesis
    proof (cases "y = 0")
      case True
      with 1 show ?thesis by simp
    next
      case False
      with 1 assms have "0 < y" by simp
      from fl_pos(1) [OF this] have "0 < fl y"
        using zero_less_power_int [of "2::rat" "exponent y"] by linarith
      with 1 show ?thesis by (simp add: fl_def)
    qed
  next
    case 2
    show ?thesis
    proof (cases "x = 0")
      case True
      with 2 show ?thesis by simp
    next
      case False
      with 2 assms have "x < 0" by simp
      from fl_neg(2) [OF this] have "fl x < 0"
        using zero_less_power_int [of "2::rat" "exponent x"] by linarith
      with 2 show ?thesis by (simp add: fl_def)
    qed
  next
    case 3
    from fl_neg(2) [OF 3(1)] have "fl x < 0"
      using zero_less_power_int [of "2::rat" "exponent x"] by linarith
    moreover from fl_pos(1) [OF 3(2)] have "0 < fl y"
      using zero_less_power_int [of "2::rat" "exponent y"] by linarith
    ultimately show ?thesis by simp
  next
    case 4
    have le: "exponent x \<le> exponent y"
      using 4 assms by (intro exponent_mono) simp_all
    show ?thesis
    proof (cases "exponent x = exponent y")
      case True
      then show ?thesis using assms 4 by (intro fl_same_exponent) simp_all
    next
      case False
      with le have "exponent x + 1 \<le> exponent y" by simp
      then have "(2::rat) powi (exponent x + 1) \<le> 2 powi exponent y"
        by (intro power_int_increasing) simp_all
      with fl_pos(2) [OF 4(1)] fl_pos(1) [OF 4(2)] show ?thesis by linarith
    qed
  next
    case 5
    have le: "exponent y \<le> exponent x"
      using 5 assms by (intro exponent_mono) simp_all
    show ?thesis
    proof (cases "exponent x = exponent y")
      case True
      then show ?thesis using assms 5 by (intro fl_same_exponent) simp_all
    next
      case False
      with le have "exponent y + 1 \<le> exponent x" by simp
      then have "(2::rat) powi (exponent y + 1) \<le> 2 powi exponent x"
        by (intro power_int_increasing) simp_all
      with fl_neg(2) [OF 5(1)] fl_neg(1) [OF 5(2)] show ?thesis by linarith
    qed
  qed
qed

text \<open>A number with a significand of at most 53 bits is a double: rounding leaves it.\<close>

lemma fl_representable:
  assumes "\<bar>m\<bar> < 2 ^ 53"
  shows "fl (of_int m * 2 powi k) = of_int m * 2 powi k"
proof (cases "m = 0")
  case True
  then show ?thesis by (simp add: fl_def)
next
  case False
  let ?x = "of_int m * (2::rat) powi k"
  let ?b = "bitlen \<bar>m\<bar>"
  have mp: "0 < \<bar>m\<bar>" using False by simp
  have b1: "1 \<le> ?b" using mp bitlen_eq_zero_iff [of "\<bar>m\<bar>"] bitlen_nonneg [of "\<bar>m\<bar>"] by linarith
  have b53: "?b \<le> 53" using assms by (simp add: bitlen_le_iff_power)
  from bitlen_bounds [OF mp]
  have lo: "2 ^ nat (?b - 1) \<le> \<bar>m\<bar>" and hi: "\<bar>m\<bar> < 2 ^ nat ?b" by simp_all
  have ax: "\<bar>?x\<bar> = of_int \<bar>m\<bar> * 2 powi k" by (simp add: abs_mult)
  have pk: "(0::rat) < 2 powi k" by simp
  have "(of_int (2 ^ nat (?b - 1)) :: rat) \<le> of_int \<bar>m\<bar>" using lo by (simp only: of_int_le_iff)
  moreover have "(of_int (2 ^ nat (?b - 1)) :: rat) = 2 powi (?b - 1)"
    using b1 by (simp add: power_int_def)
  ultimately have "(2::rat) powi (?b - 1) \<le> of_int \<bar>m\<bar>" by simp
  then have "(2::rat) powi (?b - 1) * 2 powi k \<le> of_int \<bar>m\<bar> * 2 powi k"
    using pk by (intro mult_right_mono) simp_all
  then have l: "2 powi (?b - 1 + k) \<le> \<bar>?x\<bar>"
    unfolding ax by (simp add: power_int_add)
  have "(of_int \<bar>m\<bar> :: rat) < of_int (2 ^ nat ?b)" using hi by (simp only: of_int_less_iff)
  moreover have "(of_int (2 ^ nat ?b) :: rat) = 2 powi ?b"
    using b1 by (simp add: power_int_def)
  ultimately have "(of_int \<bar>m\<bar> :: rat) < 2 powi ?b" by simp
  then have "of_int \<bar>m\<bar> * 2 powi k < (2::rat) powi ?b * 2 powi k"
    using pk by (intro mult_strict_right_mono) simp_all
  then have h: "\<bar>?x\<bar> < 2 powi (?b - 1 + k + 1)"
    unfolding ax by (simp add: power_int_add)
  have e: "exponent ?x = ?b - 1 + k" using l h by (rule exponent_unique)
  have nz: "?x \<noteq> 0" using False by simp
  have "?x * 2 powi (52 - exponent ?x) = of_int m * (2 powi k * 2 powi (53 - ?b - k))"
    by (simp add: e algebra_simps)
  also have "2 powi k * 2 powi (53 - ?b - k) = (2::rat) powi (53 - ?b)"
    by (simp flip: power_int_add)
  also have p53: "(2::rat) powi (53 - ?b) = of_int (2 ^ nat (53 - ?b))"
    using b53 by (simp add: power_int_def)
  finally have sc: "?x * 2 powi (52 - exponent ?x) = of_int (m * 2 ^ nat (53 - ?b))"
    by simp
  have "fl ?x = of_int (round_even (?x * 2 powi (52 - exponent ?x))) * 2 powi (exponent ?x - 52)"
    using nz by (simp only: fl_def if_False)
  also have "\<dots> = of_int (m * 2 ^ nat (53 - ?b)) * 2 powi (?b - 1 + k - 52)"
    by (simp only: sc round_even_of_int, simp only: e)
  also have "\<dots> = of_int m * ((2::rat) powi (53 - ?b) * 2 powi (?b - 1 + k - 52))"
    by (simp only: p53 of_int_mult mult.assoc)
  also have "(2::rat) powi (53 - ?b) * 2 powi (?b - 1 + k - 52) = 2 powi k"
    by (simp flip: power_int_add)
  finally show ?thesis .
qed

lemma fl_of_int:
  assumes "\<bar>n\<bar> < 2 ^ 53"
  shows "fl (of_int n) = of_int n"
  using fl_representable [OF assms, of 0] by simp

lemma fl_zero [simp]: "fl 0 = 0"
  by (simp add: fl_def)

lemma fl_one [simp]: "fl 1 = 1"
  using fl_of_int [of 1] by simp

lemma fl_numeral [simp]:
  "(numeral k :: int) < 9007199254740992 \<Longrightarrow> fl (numeral k) = numeral k"
  using fl_of_int [of "numeral k"] by simp

lemma fl_neg_numeral [simp]:
  "(numeral k :: int) < 9007199254740992 \<Longrightarrow> fl (- numeral k) = - numeral k"
  using fl_of_int [of "- numeral k"] by simp

lemma fl_of_nat:
  "n < 2 ^ 53 \<Longrightarrow> fl (of_nat n) = of_nat n"
  using fl_of_int [of "int n"] by simp

section \<open>Facts about one iteration and about the loop\<close>

lemma speed_of_cases:
  "speed_of d e = Inr (if e > 0 then fl (fl (of_int d) / e) else 0)"
  by (simp add: speed_of_def int_float_truediv_def)

lemma step_zero:
  "c_total_length c = 0 \<Longrightarrow>
   step c ev ls = (Some ZeroDivisionError,
      ls\<lparr>downloaded_length := downloaded_length ls + int (length (chunk ev)),
         outer := write_file (c_video_path c) (chunk ev) (outer ls)\<rparr>)"
  by (simp add: step_def Let_def percentage_of_def int_truediv_def)

lemma step_nonzero:
  assumes "c_total_length c \<noteq> 0"
  shows "step c ev ls =
    (let d = downloaded_length ls + int (length (chunk ev));
         pct = fl (of_int (100 * d) / of_int (c_total_length c));
         elapsed_time = float_sub (now ev) (c_start_time c);
         spd = (if elapsed_time > 0 then fl (fl (of_int d) / elapsed_time) else 0);
         call = Edit (chat_id (c_args c)) (message_id (c_args c))
                  (progress_message c pct d spd) (deliver_ok ev);
         st1 = write_file (c_video_path c) (chunk ev) (outer ls)
     in (None, \<lparr>downloaded_length = d,
                last_percentage_update =
                  (if float_sub pct (last_percentage_update ls) \<ge> 7 \<and> deliver_ok ev
                   then pct else last_percentage_update ls),
                computed = computed ls @ [pct],
                speeds = speeds ls @ [spd],
                outer = (if float_sub pct (last_percentage_update ls) \<ge> 7
                         then (if deliver_ok ev then add_edit call st1
                               else add_log WarnProgressFailed (add_edit call st1))
                         else st1)\<rparr>))"
  using assms
  by (simp add: step_def Let_def percentage_of_def int_truediv_def speed_of_cases)

text \<open>A property kept by every iteration holds when the loop is left, however it is left.\<close>

lemma iter_invariant:
  assumes "P ls" and "\<And>ev l. P l \<Longrightarrow> P (snd (step c ev l))"
  shows "P (snd (iter_content c e evs ls))"
  using assms(1)
proof (induction evs arbitrary: ls)
  case Nil
  then show ?case by (cases e) simp_all
next
  case (Cons ev evs)
  have s: "P (snd (step c ev ls))" using Cons.prems assms(2) by blast
  show ?case
  proof (cases "step c ev ls")
    case (Pair r l')
    with s have "P l'" by simp
    with Pair Cons.IH show ?thesis by (cases r) simp_all
  qed
qed

lemma iter_zero:
  "c_total_length c = 0 \<Longrightarrow>
   iter_content c e (ev # evs) ls = (Some ZeroDivisionError,
      ls\<lparr>downloaded_length := downloaded_length ls + int (length (chunk ev)),
         outer := write_file (c_video_path c) (chunk ev) (outer ls)\<rparr>)"
  by (simp add: step_zero)

lemma iter_nonzero_fst:
  "c_total_length c \<noteq> 0 \<Longrightarrow>
   fst (iter_content c e evs ls) = (case e of Eof \<Rightarrow> None | Broken \<Rightarrow> Some RequestException)"
proof (induction evs arbitrary: ls)
  case Nil
  then show ?case by (cases e) simp_all
next
  case (Cons ev evs)
  then show ?case by (simp add: step_nonzero Let_def)
qed

lemma fs_write_file:
  "fs (write_file p d st) = (fs st)(p \<mapsto> (case fs st p of None \<Rightarrow> d | Some old \<Rightarrow> old @ d))"
  by (simp add: write_file_def)

lemma step_fs:
  "fs (outer (snd (step c ev ls))) = fs (write_file (c_video_path c) (chunk ev) (outer ls))"
  by (cases "c_total_length c = 0")
     (simp_all add: step_zero step_nonzero Let_def add_edit_def add_log_def write_file_def)

lemma iter_nonzero_fs:
  "c_total_length c \<noteq> 0 \<Longrightarrow> fs (outer ls) (c_video_path c) = Some old \<Longrightarrow>
   fs (outer (snd (iter_content c e evs ls)))
     = (fs (outer ls))(c_video_path c \<mapsto> old @ concat (map chunk evs))"
proof (induction evs arbitrary: ls old)
  case Nil
  then show ?case by (cases e) (simp_all add: fun_upd_idem)
next
  case (Cons ev evs)
  obtain l' where s: "step c ev ls = (None, l')"
    using Cons.prems(1) by (simp add: step_nonzero Let_def)
  have f: "fs (outer l') = (fs (outer ls))(c_video_path c \<mapsto> old @ chunk ev)"
    using step_fs [of c ev ls] s Cons.prems(2) by (simp add: fs_write_file)
  then have "fs (outer l') (c_video_path c) = Some (old @ chunk ev)" by simp
  from Cons.IH [OF Cons.prems(1) this]
  have "fs (outer (snd (iter_content c e evs l')))
          = (fs (outer l'))(c_video_path c \<mapsto> (old @ chunk ev) @ concat (map chunk evs))" .
  also have "\<dots> = (fs (outer ls))(c_video_path c \<mapsto> old @ concat (map chunk (ev # evs)))"
    by (simp only: f fun_upd_upd concat.simps list.map append_assoc)
  finally show ?case using s by simp
qed

section \<open>Facts about the whole function\<close>

lemma bind_err_Inr [simp]: "bind_err (Inr x) f = f x"
  by (simp add: bind_err_def)

lemma bind_err_Inl [simp]: "bind_err (Inl e) f = Inl e"
  by (simp add: bind_err_def)

lemma resolve_link_payload:
  assumes "api_get w = Got resp" "status_code resp = 200" "json_body resp = Some (JObj kvs)"
    "map_of kvs ''response'' = Some (JArr (JObj item # rest))"
  shows "resolve_link w =
     bind_err (py_getitem (JObj item) ''resolutions'') (\<lambda>resolutions.
     bind_err (py_getitem resolutions ''Fast Download'') (\<lambda>fast_download_link.
     bind_err (py_getitem (JObj item) ''title'') (\<lambda>title.
     bind_err (re_sub_title title) (\<lambda>video_title.
       Inr (fast_download_link, video_title, video_path_of video_title)))))"
proof -
  have ne: "kvs \<noteq> []" using assms(4) by auto
  have mem: "''response'' \<in> fst ` set kvs" using assms(4) by (metis map_of_SomeD image_eqI fst_conv)
  have v: "validate (JObj kvs) = Inr ()"
    using ne mem assms(4) by (simp add: validate_def)
  have g: "py_getitem (JObj kvs) ''response'' = Inr (JArr (JObj item # rest))"
    using assms(4) by simp
  have "extract_fields (JObj kvs) =
     bind_err (py_getitem (JObj item) ''resolutions'') (\<lambda>resolutions.
     bind_err (py_getitem resolutions ''Fast Download'') (\<lambda>fast_download_link.
     bind_err (py_getitem (JObj item) ''title'') (\<lambda>title.
     bind_err (re_sub_title title) (\<lambda>video_title.
       Inr (fast_download_link, video_title, video_path_of video_title)))))"
    unfolding extract_fields_def g by simp
  then show ?thesis
    using assms(1-3) v by (simp add: resolve_link_def)
qed

lemma download_video_resolve_fails:
  assumes "resolve_link w = Inl e"
  shows "download_video a w st =
     (Inl (if handler_edit_ok w then e else TelegramError),
      st\<lparr>edits := edits st @ [Edit (chat_id a) (message_id a) (terminal_message e) (handler_edit_ok w)],
         logged := logged st @ [terminal_log e]\<rparr>)"
  using assms by (simp add: download_video_def try_body_def handler_def Let_def add_log_def add_edit_def)

lemma try_body_resolved:
  assumes "resolve_link w = Inr (link, title, path)" "open_ok w"
  shows "try_body a w st =
     (case stream_body a w title path (create_file path st) of
        (Inl e, st') \<Rightarrow> (Inl e, st')
      | (Inr total_length, st') \<Rightarrow>
          (Inr (path, title, total_length), add_log (InfoDownloaded title) st'))"
  using assms by (simp add: try_body_def)

lemma stream_body_absent:
  assumes "video_get w = Got vr" "v_status_code vr = 200" "content_length vr = Absent"
  shows "stream_body a w title path st =
     (case body_end vr of
        Broken \<Rightarrow> (Inl RequestException, st)
      | Eof \<Rightarrow> (Inr (int (length (concat (map chunk (body vr))))),
                write_file path (concat (map chunk (body vr))) st))"
  using assms by (simp add: stream_body_def Let_def split: stream_end.split)

lemma stream_body_declared:
  assumes "video_get w = Got vr" "v_status_code vr = 200" "content_length vr = Declared n"
  shows "stream_body a w title path st =
     (case iter_content (ctx_of a w title path n) (body_end vr) (body vr) (init_loop st) of
        (Some err, ls) \<Rightarrow> (Inl err, outer ls)
      | (None, ls) \<Rightarrow> (Inr n, outer ls))"
  using assms by (simp add: stream_body_def)

lemma iter_None_fs:
  assumes "fst (iter_content c e evs ls) = None" "fs (outer ls) (c_video_path c) = Some old"
  shows "fs (outer (snd (iter_content c e evs ls)))
     = (fs (outer ls))(c_video_path c \<mapsto> old @ concat (map chunk evs))"
proof (cases "c_total_length c = 0")
  case False
  then show ?thesis using assms(2) by (rule iter_nonzero_fs)
next
  case True
  have "evs = []"
  proof (cases evs)
    case (Cons ev evs')
    with assms(1) iter_zero [OF True, of e ev evs' ls] show ?thesis by simp
  qed simp
  then show ?thesis using assms by (cases e) (simp_all add: fun_upd_idem)
qed

lemma fs_create_file: "fs (create_file p st) = (fs st)(p \<mapsto> [])"
  by (simp add: create_file_def)

lemma outer_init_loop: "outer (init_loop st) = st"
  by (simp add: init_loop_def)

lemma c_video_path_ctx_of: "c_video_path (ctx_of a w t p n) = p"
  by (simp add: ctx_of_def)

lemma c_total_length_ctx_of: "c_total_length (ctx_of a w t p n) = n"
  by (simp add: ctx_of_def)

lemma download_video_try:
  "download_video a w st =
     (case try_body a w st of
        (Inr res, st') \<Rightarrow> (Inr res, st')
      | (Inl e, st') \<Rightarrow>
          (Inl (if handler_edit_ok w then e else TelegramError),
           st'\<lparr>edits := edits st' @ [Edit (chat_id a) (message_id a) (terminal_message e)
                                        (handler_edit_ok w)],
               logged := logged st' @ [terminal_log e]\<rparr>))"
  by (simp add: download_video_def handler_def Let_def add_log_def add_edit_def
           split: prod.split sum.split)

lemma download_video_declared:
  assumes "resolve_link w = Inr (link, title, path)" and "open_ok w"
    and "video_get w = Got vr" and "v_status_code vr = 200"
    and "content_length vr = Declared n" and "n \<noteq> 0"
  shows "fst (download_video a w st) =
           (case body_end vr of
              Eof \<Rightarrow> Inr (path, title, n)
            | Broken \<Rightarrow> Inl (if handler_edit_ok w then RequestException else TelegramError))"
    and "fs (snd (download_video a w st)) = (fs st)(path \<mapsto> concat (map chunk (body vr)))"
proof -
  let ?c = "ctx_of a w title path n"
  let ?it = "iter_content ?c (body_end vr) (body vr) (init_loop (create_file path st))"
  have nz: "c_total_length ?c \<noteq> 0" using assms(6) by (simp add: c_total_length_ctx_of)
  have f: "fst ?it = (case body_end vr of Eof \<Rightarrow> None | Broken \<Rightarrow> Some RequestException)"
    using nz by (rule iter_nonzero_fst)
  have "fs (outer (init_loop (create_file path st))) (c_video_path ?c) = Some []"
    by (simp add: outer_init_loop c_video_path_ctx_of fs_create_file)
  from iter_nonzero_fs [OF nz this]
  have g: "fs (outer (snd ?it)) = (fs st)(path \<mapsto> concat (map chunk (body vr)))"
    by (simp add: outer_init_loop c_video_path_ctx_of fs_create_file)
  obtain r ls where it: "?it = (r, ls)" by (cases ?it)
  have sb: "stream_body a w title path (create_file path st) =
          (case r of Some err \<Rightarrow> (Inl err, outer ls) | None \<Rightarrow> (Inr n, outer ls))"
    using assms(3-5) it by (simp add: stream_body_declared split: option.split)
  show "fst (download_video a w st) =
           (case body_end vr of
              Eof \<Rightarrow> Inr (path, title, n)
            | Broken \<Rightarrow> Inl (if handler_edit_ok w then RequestException else TelegramError))"
    using f it sb assms(1,2)
    by (cases "body_end vr")
       (simp_all add: download_video_try try_body_resolved)
  show "fs (snd (download_video a w st)) = (fs st)(path \<mapsto> concat (map chunk (body vr)))"
    using f g it sb assms(1,2)
    by (cases "body_end vr")
       (simp_all add: download_video_try try_body_resolved add_log_def)
qed

lemma download_video_Inr:
  assumes "fst (download_video a w st) = Inr (p, t, total_bytes)"
  shows "\<exists>st'. try_body a w st = (Inr (p, t, total_bytes), st') \<and> download_video a w st = (Inr (p, t, total_bytes), st')"
  using assms
  by (cases "try_body a w st") (auto simp: download_video_try split: sum.splits)

lemma try_body_Inr:
  assumes "try_body a w st = (Inr (p, t, total_bytes), st')"
  shows "\<exists>link st''. resolve_link w = Inr (link, t, p) \<and> open_ok w \<and>
           stream_body a w t p (create_file p st) = (Inr total_bytes, st'') \<and>
           st' = add_log (InfoDownloaded t) st''"
  using assms
  by (auto simp: try_body_def split: sum.splits prod.splits if_splits)

section \<open>Facts about the notifications\<close>

lemma percentage_of_Inr:
  "percentage_of d t = Inr p \<longleftrightarrow> t \<noteq> 0 \<and> p = fl (of_int (100 * d) / of_int t)"
  by (auto simp: percentage_of_def int_truediv_def)

lemma new_edits_append [simp]: "new_edits st (st'\<lparr>edits := edits st @ xs\<rparr>) = xs"
  by (simp add: new_edits_def)

lemma attempted_simps [simp]:
  "attempted [] = []"
  "attempted (xs @ ys) = attempted xs @ attempted ys"
  by (simp_all add: attempted_def)

lemma delivered_simps [simp]:
  "delivered [] = []"
  "delivered (xs @ ys) = delivered xs @ delivered ys"
  by (simp_all add: delivered_def)

lemma attempted_progress_message [simp]:
  "attempted [Edit ch m (progress_message c pct d spd) ok] = [pct]"
  by (simp add: progress_message_def attempted_def)

lemma delivered_progress_message [simp]:
  "delivered [Edit ch m (progress_message c pct d spd) ok] = (if ok then [pct] else [])"
  by (simp add: progress_message_def delivered_def)

lemma step_edits:
  assumes "percentage_of (downloaded_length ls + int (length (chunk ev))) (c_total_length c) = Inr pct"
  shows "\<exists>spd.
           edits (outer (snd (step c ev ls))) = edits (outer ls) @
            (if float_sub pct (last_percentage_update ls) \<ge> 7
             then [Edit (chat_id (c_args c)) (message_id (c_args c))
                     (progress_message c pct (downloaded_length ls + int (length (chunk ev))) spd)
                     (deliver_ok ev)]
             else [])"
proof -
  from assms have nz: "c_total_length c \<noteq> 0"
    and pct: "pct = fl (of_int (100 * (downloaded_length ls + int (length (chunk ev)))) / of_int (c_total_length c))"
    by (simp_all add: percentage_of_Inr)
  show ?thesis
    unfolding step_nonzero [OF nz] Let_def pct
    by (rule exI [of _ "if float_sub (now ev) (c_start_time c) > 0
          then fl (fl (of_int (downloaded_length ls + int (length (chunk ev))))
                     / float_sub (now ev) (c_start_time c))
          else 0"])
       (simp add: add_edit_def add_log_def write_file_def)
qed

lemma step_logged:
  assumes "percentage_of (downloaded_length ls + int (length (chunk ev))) (c_total_length c) = Inr pct"
  shows "logged (outer (snd (step c ev ls))) = logged (outer ls) @
            (if float_sub pct (last_percentage_update ls) \<ge> 7 \<and> \<not> deliver_ok ev
             then [WarnProgressFailed] else [])"
proof -
  from assms have nz: "c_total_length c \<noteq> 0"
    and pct: "pct = fl (of_int (100 * (downloaded_length ls + int (length (chunk ev)))) / of_int (c_total_length c))"
    by (simp_all add: percentage_of_Inr)
  show ?thesis
    unfolding step_nonzero [OF nz] Let_def pct
    by (simp add: add_edit_def add_log_def write_file_def)
qed

lemma step_vars:
  assumes "percentage_of (downloaded_length ls + int (length (chunk ev))) (c_total_length c) = Inr pct"
  shows "last_percentage_update (snd (step c ev ls)) =
           (if float_sub pct (last_percentage_update ls) \<ge> 7 \<and> deliver_ok ev then pct
            else last_percentage_update ls)"
    and "computed (snd (step c ev ls)) = computed ls @ [pct]"
    and "downloaded_length (snd (step c ev ls)) = downloaded_length ls + int (length (chunk ev))"
proof -
  from assms have nz: "c_total_length c \<noteq> 0"
    and pct: "pct = fl (of_int (100 * (downloaded_length ls + int (length (chunk ev)))) / of_int (c_total_length c))"
    by (simp_all add: percentage_of_Inr)
  show "last_percentage_update (snd (step c ev ls)) =
           (if float_sub pct (last_percentage_update ls) \<ge> 7 \<and> deliver_ok ev then pct
            else last_percentage_update ls)"
    and "computed (snd (step c ev ls)) = computed ls @ [pct]"
    and "downloaded_length (snd (step c ev ls)) = downloaded_length ls + int (length (chunk ev))"
    unfolding step_nonzero [OF nz] Let_def pct by simp_all
qed

lemma step_zero_unchanged:
  assumes "c_total_length c = 0"
  shows "edits (outer (snd (step c ev ls))) = edits (outer ls)"
    and "logged (outer (snd (step c ev ls))) = logged (outer ls)"
    and "last_percentage_update (snd (step c ev ls)) = last_percentage_update ls"
    and "computed (snd (step c ev ls)) = computed ls"
    and "speeds (snd (step c ev ls)) = speeds ls"
  using assms by (simp_all add: step_zero write_file_def)

lemma percentage_of_total:
  "c_total_length c \<noteq> 0 \<Longrightarrow> \<exists>pct. percentage_of d (c_total_length c) = Inr pct"
  by (simp add: percentage_of_Inr)

lemma spaced_snoc:
  "spaced w (ps @ [p]) \<longleftrightarrow> spaced w ps \<and> float_sub p (if ps = [] then w else last ps) \<ge> 7"
  by (induction ps arbitrary: w) auto

text \<open>Invariant: the watermark and the spacing of the delivered notifications.\<close>

lemma step_watermark:
  assumes "\<exists>ne. edits (outer ls) = es0 @ ne
              \<and> last_percentage_update ls = watermark_of (delivered ne)
              \<and> spaced 0 (delivered ne)"
  shows "\<exists>ne. edits (outer (snd (step c ev ls))) = es0 @ ne
              \<and> last_percentage_update (snd (step c ev ls)) = watermark_of (delivered ne)
              \<and> spaced 0 (delivered ne)"
proof (cases "c_total_length c = 0")
  case True
  then show ?thesis using assms by (simp add: step_zero_unchanged)
next
  case False
  then obtain pct where
    pct: "percentage_of (downloaded_length ls + int (length (chunk ev))) (c_total_length c) = Inr pct"
    using percentage_of_total by blast
  obtain ne where ne: "edits (outer ls) = es0 @ ne"
    "last_percentage_update ls = watermark_of (delivered ne)" "spaced 0 (delivered ne)"
    using assms by blast
  obtain spd where p:
    "edits (outer (snd (step c ev ls))) = edits (outer ls) @
            (if float_sub pct (last_percentage_update ls) \<ge> 7
             then [Edit (chat_id (c_args c)) (message_id (c_args c))
                     (progress_message c pct (downloaded_length ls + int (length (chunk ev))) spd)
                     (deliver_ok ev)]
             else [])"
    using step_edits [OF pct] by blast
  let ?new = "(if float_sub pct (last_percentage_update ls) \<ge> 7
             then [Edit (chat_id (c_args c)) (message_id (c_args c))
                     (progress_message c pct (downloaded_length ls + int (length (chunk ev))) spd)
                     (deliver_ok ev)]
             else [])"
  have e: "edits (outer (snd (step c ev ls))) = es0 @ (ne @ ?new)"
    using p ne(1) by simp
  have w: "last_percentage_update (snd (step c ev ls)) = watermark_of (delivered (ne @ ?new))"
    using ne(2) by (simp add: step_vars(1) [OF pct] watermark_of_def)
  have s: "spaced 0 (delivered (ne @ ?new))"
    using ne(2,3) by (simp add: spaced_snoc watermark_of_def)
  from e w s show ?thesis by blast
qed

lemma iter_watermark:
  "\<exists>ne. edits (outer (snd (iter_content c e evs (init_loop st)))) = edits st @ ne
      \<and> last_percentage_update (snd (iter_content c e evs (init_loop st)))
           = watermark_of (delivered ne)
      \<and> spaced 0 (delivered ne)"
  by (rule iter_invariant [where P = "\<lambda>l. \<exists>ne. edits (outer l) = edits st @ ne
              \<and> last_percentage_update l = watermark_of (delivered ne)
              \<and> spaced 0 (delivered ne)"])
     (simp add: init_loop_def watermark_of_def, rule step_watermark)

lemma new_edits_eq: "edits st' = edits st @ xs \<Longrightarrow> new_edits st st' = xs"
  by (simp add: new_edits_def)

lemma new_logged_eq: "logged st' = logged st @ xs \<Longrightarrow> new_logged st st' = xs"
  by (simp add: new_logged_def)

text \<open>On whole percentages up to 100 the float difference is the exact one.\<close>

lemma float_gap:
  assumes "a \<le> 100" and "b \<le> 100"
  shows "(7 \<le> float_sub (of_nat a) (of_nat b)) = (b + 7 \<le> a)"
proof -
  have "\<bar>int a - int b\<bar> < 2 ^ 53" using assms by simp
  then have "fl (of_int (int a - int b)) = of_int (int a - int b)" by (rule fl_of_int)
  then have "float_sub (of_nat a) (of_nat b) = of_int (int a - int b)"
    by (simp add: float_sub_def)
  then have "(7 \<le> float_sub (of_nat a) (of_nat b)) = ((of_int 7 :: rat) \<le> of_int (int a - int b))"
    by simp
  also have "\<dots> = (7 \<le> int a - int b)" by (simp only: of_int_le_iff)
  finally show ?thesis by auto
qed

lemma seven_div:
  "(7 * (j div 7) + 7 \<le> Suc j) = (Suc j = 7 * (j div 7 + 1))"
  "Suc j = 7 * (j div 7 + 1) \<Longrightarrow> Suc j div 7 = j div 7 + 1"
  "Suc j \<noteq> 7 * (j div 7 + 1) \<Longrightarrow> Suc j div 7 = j div 7"
  by presburger+

lemma equal_pct:
  assumes "0 < m" and "j < 100"
  shows "percentage_of (int (j * m) + int m) (100 * int m) = Inr (of_nat (Suc j))"
proof -
  have "(of_int (100 * (int (j * m) + int m)) :: rat) = of_nat (Suc j) * of_int (100 * int m)"
    by (simp add: algebra_simps)
  then have "(of_int (100 * (int (j * m) + int m)) :: rat) / of_int (100 * int m) = of_nat (Suc j)"
    using assms(1) by simp
  moreover have "fl (of_nat (Suc j)) = of_nat (Suc j)"
    using assms(2) by (intro fl_of_nat) simp
  ultimately have "fl (of_int (100 * (int (j * m) + int m)) / of_int (100 * int m)) = of_nat (Suc j)"
    by (simp only:)
  then show ?thesis using assms(1) by (simp only: percentage_of_Inr) simp
qed

lemma equal_chunks:
  assumes m: "0 < m" and t: "c_total_length c = 100 * int m"
  shows "(\<forall>ev\<in>set evs. length (chunk ev) = m \<and> deliver_ok ev) \<Longrightarrow>
     edits (outer ls) = es0 @ ne \<Longrightarrow> downloaded_length ls = int (j * m) \<Longrightarrow>
     last_percentage_update ls = of_nat (7 * (j div 7)) \<Longrightarrow> j + length evs \<le> 100 \<Longrightarrow>
     \<exists>ne'. edits (outer (snd (iter_content c e evs ls))) = es0 @ ne' \<and>
        delivered ne' = delivered ne @
          map (\<lambda>k. 7 * of_nat k) [j div 7 + 1 ..< (j + length evs) div 7 + 1]"
proof (induction evs arbitrary: ls ne j)
  case Nil
  then show ?case by (cases e) simp_all
next
  case (Cons ev evs)
  have len: "length (chunk ev) = m" and ok: "deliver_ok ev" using Cons.prems(1) by simp_all
  have nz: "c_total_length c \<noteq> 0" using m t by simp
  have j: "j < 100" using Cons.prems(5) by simp
  have pct: "percentage_of (downloaded_length ls + int (length (chunk ev))) (c_total_length c)
               = Inr (of_nat (Suc j))"
    using equal_pct [OF m j] Cons.prems(3) len t by simp
  have rat_gap: "(7 \<le> float_sub (of_nat (Suc j)) (of_nat (7 * (j div 7))))
                   = (7 * (j div 7) + 7 \<le> Suc j)"
    using j by (intro float_gap) simp_all
  let ?ls1 = "snd (step c ev ls)"
  have st: "step c ev ls = (None, ?ls1)"
    using nz by (simp add: step_nonzero Let_def)
  let ?due = "Suc j = 7 * (j div 7 + 1)"
  obtain spd where ed: "edits (outer ?ls1) = edits (outer ls) @
      (if ?due then [Edit (chat_id (c_args c)) (message_id (c_args c))
                     (progress_message c (of_nat (Suc j)) (downloaded_length ls + int (length (chunk ev))) spd)
                     (deliver_ok ev)]
       else [])"
    using step_edits [OF pct] Cons.prems(4) by (auto simp: rat_gap seven_div(1) simp del: of_nat_Suc of_nat_mult)
  let ?X = "(if ?due then [Edit (chat_id (c_args c)) (message_id (c_args c))
                     (progress_message c (of_nat (Suc j)) (downloaded_length ls + int (length (chunk ev))) spd)
                     (deliver_ok ev)]
       else [])"
  have e1: "edits (outer ?ls1) = es0 @ (ne @ ?X)" using ed Cons.prems(2) by simp
  have d1: "downloaded_length ?ls1 = int (Suc j * m)"
    using step_vars(3) [OF pct] Cons.prems(3) len by (simp add: algebra_simps)
  have l1: "last_percentage_update ?ls1 = of_nat (7 * (Suc j div 7))"
  proof (cases ?due)
    case True
    then show ?thesis
      using step_vars(1) [OF pct] Cons.prems(4) ok seven_div(2) [OF True]
      by (simp add: rat_gap seven_div(1) del: of_nat_Suc of_nat_mult)
  next
    case False
    then show ?thesis
      using step_vars(1) [OF pct] Cons.prems(4) ok seven_div(3) [OF False]
      by (simp add: rat_gap seven_div(1) del: of_nat_Suc of_nat_mult)
  qed
  have rest: "\<forall>ev\<in>set evs. length (chunk ev) = m \<and> deliver_ok ev" using Cons.prems(1) by simp
  have bound: "Suc j + length evs \<le> 100" using Cons.prems(5) by simp
  obtain ne' where r1: "edits (outer (snd (iter_content c e evs ?ls1))) = es0 @ ne'"
    and r2: "delivered ne' = delivered (ne @ ?X) @
          map (\<lambda>k. 7 * of_nat k) [Suc j div 7 + 1 ..< (Suc j + length evs) div 7 + 1]"
    using Cons.IH [OF rest e1 d1 l1 bound] by blast
  have join: "delivered ?X @ map (\<lambda>k. 7 * of_nat k) [Suc j div 7 + 1 ..< (Suc j + length evs) div 7 + 1]
        = map (\<lambda>k. (7::rat) * of_nat k) [j div 7 + 1 ..< (j + length (ev # evs)) div 7 + 1]"
  proof (cases ?due)
    case True
    have le: "j div 7 + 1 < (Suc j + length evs) div 7 + 1"
      using seven_div(2) [OF True] by (metis div_le_mono le_add1 less_Suc_eq_le Suc_eq_plus1)
    have v: "(of_nat (Suc j) :: rat) = 7 * of_nat (j div 7 + 1)"
      using True by (metis of_nat_mult of_nat_numeral)
    show ?thesis
      using True ok seven_div(2) [OF True] upt_conv_Cons [OF le] v
      by (simp del: of_nat_Suc of_nat_add)
  next
    case False
    then show ?thesis using seven_div(3) [OF False] by simp
  qed
  have "iter_content c e (ev # evs) ls = iter_content c e evs ?ls1"
    using st by (cases "step c ev ls") auto
  then show ?case using r1 r2 join by (simp del: of_nat_Suc)
qed

lemma step_new_edits:
  assumes "percentage_of (downloaded_length ls + int (length (chunk ev))) (c_total_length c) = Inr pct"
  shows "attempted (new_edits (outer ls) (outer (snd (step c ev ls))))
           = (if float_sub pct (last_percentage_update ls) \<ge> 7 then [pct] else [])"
    and "delivered (new_edits (outer ls) (outer (snd (step c ev ls))))
           = (if float_sub pct (last_percentage_update ls) \<ge> 7 \<and> deliver_ok ev then [pct] else [])"
proof -
  obtain spd where p:
    "edits (outer (snd (step c ev ls))) = edits (outer ls) @
            (if float_sub pct (last_percentage_update ls) \<ge> 7
             then [Edit (chat_id (c_args c)) (message_id (c_args c))
                     (progress_message c pct (downloaded_length ls + int (length (chunk ev))) spd)
                     (deliver_ok ev)]
             else [])"
    using step_edits [OF assms] by blast
  show "attempted (new_edits (outer ls) (outer (snd (step c ev ls))))
           = (if float_sub pct (last_percentage_update ls) \<ge> 7 then [pct] else [])"
    by (simp add: new_edits_eq [OF p])
  show "delivered (new_edits (outer ls) (outer (snd (step c ev ls))))
           = (if float_sub pct (last_percentage_update ls) \<ge> 7 \<and> deliver_ok ev then [pct] else [])"
    by (simp add: new_edits_eq [OF p])
qed

lemma iter_spaced:
  "spaced 0 (delivered (new_edits st (outer (snd (iter_content c e evs (init_loop st))))))"
    and iter_watermark_new:
  "last_percentage_update (snd (iter_content c e evs (init_loop st)))
     = watermark_of (delivered (new_edits st (outer (snd (iter_content c e evs (init_loop st))))))"
proof -
  obtain ne where ne: "edits (outer (snd (iter_content c e evs (init_loop st)))) = edits st @ ne"
      "last_percentage_update (snd (iter_content c e evs (init_loop st)))
           = watermark_of (delivered ne)"
      "spaced 0 (delivered ne)"
    using iter_watermark [of c e evs st] by blast
  show "spaced 0 (delivered (new_edits st (outer (snd (iter_content c e evs (init_loop st))))))"
    using ne(3) by (simp add: new_edits_eq [OF ne(1)])
  show "last_percentage_update (snd (iter_content c e evs (init_loop st)))
     = watermark_of (delivered (new_edits st (outer (snd (iter_content c e evs (init_loop st))))))"
    using ne(2) by (simp add: new_edits_eq [OF ne(1)])
qed

lemma hundred_chunks:
  assumes "0 < m" and "length evs = 100"
    and "\<forall>ev\<in>set evs. length (chunk ev) = m \<and> deliver_ok ev"
    and "c_total_length c = 100 * int m"
  shows "delivered (new_edits st (outer (snd (iter_content c e evs (init_loop st)))))
           = map (\<lambda>k. 7 * of_nat k) [1..<15]"
proof -
  have "\<exists>ne'. edits (outer (snd (iter_content c e evs (init_loop st)))) = edits st @ ne' \<and>
        delivered ne' = delivered [] @
          map (\<lambda>k. 7 * of_nat k) [0 div 7 + 1 ..< (0 + length evs) div 7 + 1]"
    by (rule equal_chunks [OF assms(1,4,3)]) (simp_all add: init_loop_def assms(2))
  then obtain ne' where ne: "edits (outer (snd (iter_content c e evs (init_loop st)))) = edits st @ ne'"
    and d: "delivered ne' = map (\<lambda>k. 7 * of_nat k) [1 ..< 15]"
    using assms(2) by auto
  show ?thesis using d by (simp add: new_edits_eq [OF ne])
qed

lemma pct_mono:
  assumes "0 < t"
  shows "fl (of_int (100 * d) / of_int t) \<le> fl (of_int (100 * (d + int k)) / of_int t)"
proof (rule fl_mono)
  show "(of_int (100 * d) :: rat) / of_int t \<le> of_int (100 * (d + int k)) / of_int t"
    using assms by (intro divide_right_mono) simp_all
qed

lemma step_monotone:
  assumes t: "0 \<le> c_total_length c"
    and inv: "\<exists>ne. edits (outer ls) = es0 @ ne \<and> subseq (attempted ne) (computed ls)
             \<and> sorted (computed ls)
             \<and> (\<forall>p\<in>set (computed ls).
                   p \<le> fl (of_int (100 * downloaded_length ls) / of_int (c_total_length c)))"
  shows "\<exists>ne. edits (outer (snd (step c ev ls))) = es0 @ ne
             \<and> subseq (attempted ne) (computed (snd (step c ev ls)))
             \<and> sorted (computed (snd (step c ev ls)))
             \<and> (\<forall>p\<in>set (computed (snd (step c ev ls))).
                   p \<le> fl (of_int (100 * downloaded_length (snd (step c ev ls)))
                             / of_int (c_total_length c)))"
proof (cases "c_total_length c = 0")
  case True
  then show ?thesis using inv by (simp add: step_zero_unchanged)
next
  case False
  let ?d = "downloaded_length ls + int (length (chunk ev))"
  let ?pct = "fl (of_int (100 * ?d) / of_int (c_total_length c))"
  have pct: "percentage_of ?d (c_total_length c) = Inr ?pct"
    using False by (simp add: percentage_of_Inr)
  obtain ne where ne: "edits (outer ls) = es0 @ ne" "subseq (attempted ne) (computed ls)"
    "sorted (computed ls)"
    "\<forall>p\<in>set (computed ls).
        p \<le> fl (of_int (100 * downloaded_length ls) / of_int (c_total_length c))"
    using inv by blast
  obtain spd where p:
    "edits (outer (snd (step c ev ls))) = edits (outer ls) @
            (if float_sub ?pct (last_percentage_update ls) \<ge> 7
             then [Edit (chat_id (c_args c)) (message_id (c_args c))
                     (progress_message c ?pct ?d spd) (deliver_ok ev)]
             else [])"
    using step_edits [OF pct] by blast
  let ?new = "(if float_sub ?pct (last_percentage_update ls) \<ge> 7
             then [Edit (chat_id (c_args c)) (message_id (c_args c))
                     (progress_message c ?pct ?d spd) (deliver_ok ev)]
             else [])"
  have up: "fl (of_int (100 * downloaded_length ls) / of_int (c_total_length c)) \<le> ?pct"
    using t False by (intro pct_mono) simp
  have e: "edits (outer (snd (step c ev ls))) = es0 @ (ne @ ?new)" using p ne(1) by simp
  have c: "computed (snd (step c ev ls)) = computed ls @ [?pct]" by (rule step_vars(2) [OF pct])
  have d: "downloaded_length (snd (step c ev ls)) = ?d" by (rule step_vars(3) [OF pct])
  have s1: "subseq (attempted (ne @ ?new)) (computed (snd (step c ev ls)))"
    using ne(2) by (simp add: c subseq_rev_drop_many list_emb_append_mono del: of_int_mult of_int_add)
  have s2: "sorted (computed (snd (step c ev ls)))"
    using ne(3,4) up by (auto simp: c sorted_append simp del: of_int_mult of_int_add)
  have s3: "\<forall>p\<in>set (computed (snd (step c ev ls))).
              p \<le> fl (of_int (100 * downloaded_length (snd (step c ev ls)))
                        / of_int (c_total_length c))"
    using ne(4) up by (auto simp: c d simp del: of_int_mult of_int_add)
  from e s1 s2 s3 show ?thesis by blast
qed

lemma iter_monotone:
  assumes "0 \<le> c_total_length c"
  shows "\<exists>ne. edits (outer (snd (iter_content c e evs (init_loop st)))) = edits st @ ne
             \<and> subseq (attempted ne) (computed (snd (iter_content c e evs (init_loop st))))
             \<and> sorted (computed (snd (iter_content c e evs (init_loop st))))"
proof -
  have "\<exists>ne. edits (outer (snd (iter_content c e evs (init_loop st)))) = edits st @ ne
             \<and> subseq (attempted ne) (computed (snd (iter_content c e evs (init_loop st))))
             \<and> sorted (computed (snd (iter_content c e evs (init_loop st))))
             \<and> (\<forall>p\<in>set (computed (snd (iter_content c e evs (init_loop st)))).
                   p \<le> fl (of_int (100 * downloaded_length (snd (iter_content c e evs (init_loop st))))
                             / of_int (c_total_length c)))"
    by (rule iter_invariant [where P = "\<lambda>l. \<exists>ne. edits (outer l) = edits st @ ne
             \<and> subseq (attempted ne) (computed l) \<and> sorted (computed l)
             \<and> (\<forall>p\<in>set (computed l).
                   p \<le> fl (of_int (100 * downloaded_length l) / of_int (c_total_length c)))"])
       (simp add: init_loop_def, rule step_monotone [OF assms])
  then show ?thesis by blast
qed

lemma step_warnings:
  assumes "\<exists>ne nl. edits (outer ls) = es0 @ ne \<and> logged (outer ls) = lg0 @ nl
             \<and> length (filter (\<lambda>l. l = WarnProgressFailed) nl)
                 = length (filter (\<lambda>c. \<not> e_ok c) ne)"
  shows "\<exists>ne nl. edits (outer (snd (step c ev ls))) = es0 @ ne
             \<and> logged (outer (snd (step c ev ls))) = lg0 @ nl
             \<and> length (filter (\<lambda>l. l = WarnProgressFailed) nl)
                 = length (filter (\<lambda>c. \<not> e_ok c) ne)"
proof (cases "c_total_length c = 0")
  case True
  then show ?thesis using assms by (simp add: step_zero_unchanged)
next
  case False
  then obtain pct where
    pct: "percentage_of (downloaded_length ls + int (length (chunk ev))) (c_total_length c) = Inr pct"
    using percentage_of_total by blast
  obtain ne nl where ne: "edits (outer ls) = es0 @ ne" "logged (outer ls) = lg0 @ nl"
    "length (filter (\<lambda>l. l = WarnProgressFailed) nl) = length (filter (\<lambda>c. \<not> e_ok c) ne)"
    using assms by blast
  obtain spd where p:
    "edits (outer (snd (step c ev ls))) = edits (outer ls) @
            (if float_sub pct (last_percentage_update ls) \<ge> 7
             then [Edit (chat_id (c_args c)) (message_id (c_args c))
                     (progress_message c pct (downloaded_length ls + int (length (chunk ev))) spd)
                     (deliver_ok ev)]
             else [])"
    using step_edits [OF pct] by blast
  let ?new = "(if float_sub pct (last_percentage_update ls) \<ge> 7
             then [Edit (chat_id (c_args c)) (message_id (c_args c))
                     (progress_message c pct (downloaded_length ls + int (length (chunk ev))) spd)
                     (deliver_ok ev)]
             else [])"
  let ?nlog = "(if float_sub pct (last_percentage_update ls) \<ge> 7 \<and> \<not> deliver_ok ev
             then [WarnProgressFailed] else [])"
  have e: "edits (outer (snd (step c ev ls))) = es0 @ (ne @ ?new)" using p ne(1) by simp
  have l: "logged (outer (snd (step c ev ls))) = lg0 @ (nl @ ?nlog)"
    using step_logged [OF pct] ne(2) by simp
  have n: "length (filter (\<lambda>l. l = WarnProgressFailed) (nl @ ?nlog))
             = length (filter (\<lambda>c. \<not> e_ok c) (ne @ ?new))"
    using ne(3) by simp
  from e l n show ?thesis by blast
qed

lemma iter_warnings:
  "\<exists>ne nl. edits (outer (snd (iter_content c e evs (init_loop st)))) = edits st @ ne
         \<and> logged (outer (snd (iter_content c e evs (init_loop st)))) = logged st @ nl
         \<and> length (filter (\<lambda>l. l = WarnProgressFailed) nl)
             = length (filter (\<lambda>c. \<not> e_ok c) ne)"
  by (rule iter_invariant [where P = "\<lambda>l. \<exists>ne nl. edits (outer l) = edits st @ ne
         \<and> logged (outer l) = logged st @ nl
         \<and> length (filter (\<lambda>l. l = WarnProgressFailed) nl)
             = length (filter (\<lambda>c. \<not> e_ok c) ne)"])
     (simp add: init_loop_def, rule step_warnings)

lemma download_video_completed_state:
  assumes "resolve_link w = Inr (link, title, path)" and "open_ok w"
    and "video_get w = Got vr" and "v_status_code vr = 200"
    and "content_length vr = Declared n" and "n \<noteq> 0" and "body_end vr = Eof"
  shows "snd (download_video a w st) =
           add_log (InfoDownloaded title)
             (outer (snd (iter_content (ctx_of a w title path n) Eof (body vr)
                            (init_loop (create_file path st)))))"
proof -
  let ?c = "ctx_of a w title path n"
  let ?it = "iter_content ?c Eof (body vr) (init_loop (create_file path st))"
  have nz: "c_total_length ?c \<noteq> 0" using assms(6) by (simp add: c_total_length_ctx_of)
  have f: "fst ?it = None" using iter_nonzero_fst [OF nz, of Eof] by simp
  obtain r ls where it: "?it = (r, ls)" by (cases ?it)
  with f have r: "r = None" by simp
  have "stream_body a w title path (create_file path st) = (Inr n, outer ls)"
    using assms(3-5,7) it r by (simp add: stream_body_declared)
  then show ?thesis
    using assms(1,2) it by (simp add: download_video_try try_body_resolved)
qed

lemma terminal_progress_message [simp]:
  "terminal (Edit ch m (progress_message c pct d spd) ok) = False"
  by (simp add: progress_message_def)

lemma attempted_speeds_simps [simp]:
  "attempted_speeds [] = []"
  "attempted_speeds (xs @ ys) = attempted_speeds xs @ attempted_speeds ys"
  "attempted_speeds [Edit ch m (progress_message c pct d spd) ok] = [spd]"
  by (simp_all add: attempted_speeds_def progress_message_def)

text \<open>The edits of one iteration, with the throughput they carry.\<close>

lemma step_call:
  assumes "c_total_length c \<noteq> 0"
  shows "edits (outer (snd (step c ev ls))) = edits (outer ls) @
     (if float_sub (fl (of_int (100 * (downloaded_length ls + int (length (chunk ev))))
                        / of_int (c_total_length c))) (last_percentage_update ls) \<ge> 7
      then [Edit (chat_id (c_args c)) (message_id (c_args c))
              (progress_message c
                 (fl (of_int (100 * (downloaded_length ls + int (length (chunk ev))))
                      / of_int (c_total_length c)))
                 (downloaded_length ls + int (length (chunk ev)))
                 (if float_sub (now ev) (c_start_time c) > 0
                  then fl (fl (of_int (downloaded_length ls + int (length (chunk ev))))
                            / float_sub (now ev) (c_start_time c))
                  else 0))
              (deliver_ok ev)]
      else [])"
  unfolding step_nonzero [OF assms] Let_def
  by (simp add: add_edit_def add_log_def write_file_def)

lemma step_speeds:
  assumes "c_total_length c \<noteq> 0"
  shows "speeds (snd (step c ev ls)) = speeds ls @
     [if float_sub (now ev) (c_start_time c) > 0
      then fl (fl (of_int (downloaded_length ls + int (length (chunk ev))))
                / float_sub (now ev) (c_start_time c))
      else 0]"
    and "downloaded_length (snd (step c ev ls)) = downloaded_length ls + int (length (chunk ev))"
    and "fst (step c ev ls) = None"
  unfolding step_nonzero [OF assms] Let_def by simp_all

lemma received_Cons:
  "received (ev # evs) (Suc i) = int (length (chunk ev)) + received evs i"
  "received (ev # evs) 0 = int (length (chunk ev))"
  by (simp_all add: received_def)

lemma iter_speeds:
  assumes "c_total_length c \<noteq> 0"
  shows "speeds (snd (iter_content c e evs ls)) = speeds ls @
     map (\<lambda>i. if float_sub (now (evs ! i)) (c_start_time c) > 0
               then fl (fl (of_int (downloaded_length ls + received evs i))
                         / float_sub (now (evs ! i)) (c_start_time c))
               else 0) [0..<length evs]"
proof (induction evs arbitrary: ls)
  case Nil
  then show ?case by (cases e) simp_all
next
  case (Cons ev evs)
  let ?ls1 = "snd (step c ev ls)"
  have st: "step c ev ls = (None, ?ls1)"
    using step_speeds(3) [OF assms, of ev ls] by (cases "step c ev ls") simp
  have it: "iter_content c e (ev # evs) ls = iter_content c e evs ?ls1"
    using st by (cases "step c ev ls") auto
  have u: "[0..<length (ev # evs)] = 0 # map Suc [0..<length evs]"
    by (simp add: upt_conv_Cons map_Suc_upt del: upt_Suc)
  show ?case
    unfolding it Cons.IH [of ?ls1] step_speeds(1,2) [OF assms] u
    by (simp add: received_Cons add.assoc comp_def del: upt_Suc)
qed

lemma step_computed:
  assumes "c_total_length c \<noteq> 0"
  shows "computed (snd (step c ev ls)) = computed ls @
     [fl (of_int (100 * (downloaded_length ls + int (length (chunk ev))))
           / of_int (c_total_length c))]"
  unfolding step_nonzero [OF assms] Let_def by simp

lemma iter_computed:
  assumes "c_total_length c \<noteq> 0"
  shows "computed (snd (iter_content c e evs ls)) = computed ls @
     map (\<lambda>i. fl (of_int (100 * (downloaded_length ls + received evs i))
                   / of_int (c_total_length c))) [0..<length evs]"
proof (induction evs arbitrary: ls)
  case Nil
  then show ?case by (cases e) simp_all
next
  case (Cons ev evs)
  let ?ls1 = "snd (step c ev ls)"
  have st: "step c ev ls = (None, ?ls1)"
    using step_speeds(3) [OF assms, of ev ls] by (cases "step c ev ls") simp
  have it: "iter_content c e (ev # evs) ls = iter_content c e evs ?ls1"
    using st by (cases "step c ev ls") auto
  have u: "[0..<length (ev # evs)] = 0 # map Suc [0..<length evs]"
    by (simp add: upt_conv_Cons map_Suc_upt del: upt_Suc)
  show ?case
    unfolding it Cons.IH [of ?ls1] step_computed [OF assms] step_speeds(2) [OF assms] u
    by (simp add: received_Cons add.assoc comp_def del: upt_Suc of_int_mult of_int_add)
qed

text \<open>The loop and the code around it make no call with a terminal text.\<close>

lemma step_no_terminal:
  assumes "\<exists>ne. edits (outer ls) = es0 @ ne \<and> filter terminal ne = []"
  shows "\<exists>ne. edits (outer (snd (step c ev ls))) = es0 @ ne \<and> filter terminal ne = []"
proof (cases "c_total_length c = 0")
  case True
  then show ?thesis using assms by (simp add: step_zero_unchanged)
next
  case False
  obtain ne where ne: "edits (outer ls) = es0 @ ne" "filter terminal ne = []"
    using assms by blast
  show ?thesis
    unfolding step_call [OF False] ne(1) using ne(2)
    by (cases "float_sub (fl (of_int (100 * (downloaded_length ls + int (length (chunk ev))))
                        / of_int (c_total_length c))) (last_percentage_update ls) \<ge> 7")
       simp_all
qed

lemma iter_no_terminal:
  "\<exists>ne. edits (outer (snd (iter_content c e evs (init_loop st)))) = edits st @ ne
      \<and> filter terminal ne = []"
  by (rule iter_invariant [where P = "\<lambda>l. \<exists>ne. edits (outer l) = edits st @ ne
         \<and> filter terminal ne = []"])
     (simp add: init_loop_def, rule step_no_terminal)

lemma stream_body_no_terminal:
  "\<exists>ne. edits (snd (stream_body a w title path st)) = edits st @ ne \<and> filter terminal ne = []"
proof (cases "video_get w")
  case NetError
  then show ?thesis by (simp add: stream_body_def)
next
  case (Got vr)
  show ?thesis
  proof (cases "v_status_code vr = 200")
    case False
    with Got show ?thesis by (simp add: stream_body_def)
  next
    case True
    show ?thesis
    proof (cases "content_length vr")
      case Absent
      then show ?thesis using Got True
        by (simp add: stream_body_absent write_file_def split: stream_end.split)
    next
      case Unparsable
      then show ?thesis using Got True by (simp add: stream_body_def)
    next
      case (Declared n)
      obtain r ls where it: "iter_content (ctx_of a w title path n) (body_end vr) (body vr)
                               (init_loop st) = (r, ls)"
        by (cases "iter_content (ctx_of a w title path n) (body_end vr) (body vr) (init_loop st)")
      have "snd (stream_body a w title path st) = outer ls"
        using Got True Declared it by (simp add: stream_body_declared split: option.split)
      moreover have "\<exists>ne. edits (outer ls) = edits st @ ne \<and> filter terminal ne = []"
        using iter_no_terminal [of "ctx_of a w title path n" "body_end vr" "body vr" st] it
        by simp
      ultimately show ?thesis by simp
    qed
  qed
qed

lemma try_body_no_terminal:
  "\<exists>ne. edits (snd (try_body a w st)) = edits st @ ne \<and> filter terminal ne = []"
proof (cases "resolve_link w")
  case (Inl e)
  then show ?thesis by (simp add: try_body_def)
next
  case (Inr r)
  obtain link title path where r: "r = (link, title, path)" by (cases r)
  show ?thesis
  proof (cases "open_ok w")
    case False
    with Inr r show ?thesis by (simp add: try_body_def)
  next
    case True
    obtain ne where ne: "edits (snd (stream_body a w title path (create_file path st)))
                           = edits (create_file path st) @ ne" "filter terminal ne = []"
      using stream_body_no_terminal [of a w title path "create_file path st"] by blast
    have "edits (snd (try_body a w st))
            = edits (snd (stream_body a w title path (create_file path st)))"
      using Inr r True
      by (cases "stream_body a w title path (create_file path st)")
         (simp add: try_body_def add_log_def split: sum.split)
    then show ?thesis using ne by (simp add: create_file_def)
  qed
qed

lemma init_loop_simps:
  "downloaded_length (init_loop st) = 0" "last_percentage_update (init_loop st) = 0"
  "computed (init_loop st) = []" "speeds (init_loop st) = []" "outer (init_loop st) = st"
  by (simp_all add: init_loop_def)

text \<open>
  Rounding decides at line 141. With a declared total of 300, chunks of 23 and 21 bytes
  give the percentages 7.666666666666667 and 14.666666666666666, whose difference in floats
  is 6.999999999999999: the second chunk attempts no notification, although \<open>44/3 - 23/3\<close>
  is 7.
\<close>

lemma thirds:
  "7 \<le> fl (fl (23 / 3))" "\<not> 7 \<le> fl (fl (44 / 3) - fl (23 / 3))"
  by code_simp+

lemma rounding_example:
  "attempted (new_edits \<lparr>fs = Map.empty, edits = [], logged = []\<rparr>
     (outer (snd (iter_content
        \<lparr>c_args = \<lparr>url = ''u'', chat_id = 1, message_id = 2, user_mention = ''m'', user_id = 3\<rparr>,
         c_start_time = 0, c_video_title = ''v'', c_video_path = ''Videos/v.mp4'',
         c_total_length = 300\<rparr>
        Eof [\<lparr>chunk = replicate 23 CHR ''a'', now = 1, deliver_ok = True\<rparr>,
             \<lparr>chunk = replicate 21 CHR ''a'', now = 2, deliver_ok = True\<rparr>]
        (init_loop \<lparr>fs = Map.empty, edits = [], logged = []\<rparr>)))))
   = [fl (23 / 3)]"
  by (simp add: step_nonzero Let_def init_loop_def float_sub_def add_edit_def add_log_def
        write_file_def new_edits_def attempted_def progress_message_def thirds)

section \<open>The claims\<close>

text \<open>
  C9, as amended. For every chunk processed with a declared total other than 0, the
  iteration raises nothing and the throughput bound at line 138 is 0 when the elapsed time
  is 0 or negative, and otherwise the bytes downloaded so far, converted to a float,
  divided by the elapsed time; this is the throughput that the progress message of the
  iteration carries, when one is due. Over a whole run the throughputs computed are these values, one for
  each chunk, with the bytes received up to that chunk. With a declared total of 0 the
  iteration ends at line 137, before any throughput is computed.
\<close>

theorem throughput_guarded:
  "(c_total_length c \<noteq> 0 \<longrightarrow>
      fst (step c ev ls) = None
    \<and> speeds (snd (step c ev ls)) = speeds ls @
         [if float_sub (now ev) (c_start_time c) > 0
          then fl (fl (of_int (downloaded_length ls + int (length (chunk ev))))
                    / float_sub (now ev) (c_start_time c))
          else 0]
    \<and> attempted_speeds (new_edits (outer ls) (outer (snd (step c ev ls))))
        = (if float_sub (fl (of_int (100 * (downloaded_length ls + int (length (chunk ev))))
                              / of_int (c_total_length c))) (last_percentage_update ls) \<ge> 7
           then [if float_sub (now ev) (c_start_time c) > 0
                 then fl (fl (of_int (downloaded_length ls + int (length (chunk ev))))
                           / float_sub (now ev) (c_start_time c))
                 else 0]
           else [])
    \<and> speeds (snd (iter_content c e evs (init_loop st)))
        = map (\<lambda>i. if float_sub (now (evs ! i)) (c_start_time c) > 0
                     then fl (fl (of_int (received evs i))
                               / float_sub (now (evs ! i)) (c_start_time c))
                     else 0) [0..<length evs])
   \<and> (c_total_length c = 0 \<longrightarrow>
        fst (step c ev ls) = Some ZeroDivisionError
      \<and> speeds (snd (step c ev ls)) = speeds ls)"
proof (intro conjI impI)
  assume nz: "c_total_length c \<noteq> 0"
  show "fst (step c ev ls) = None" by (rule step_speeds(3) [OF nz])
  show "speeds (snd (step c ev ls)) = speeds ls @
         [if float_sub (now ev) (c_start_time c) > 0
          then fl (fl (of_int (downloaded_length ls + int (length (chunk ev))))
                    / float_sub (now ev) (c_start_time c))
          else 0]"
    by (rule step_speeds(1) [OF nz])
  show "attempted_speeds (new_edits (outer ls) (outer (snd (step c ev ls))))
        = (if float_sub (fl (of_int (100 * (downloaded_length ls + int (length (chunk ev))))
                              / of_int (c_total_length c))) (last_percentage_update ls) \<ge> 7
           then [if float_sub (now ev) (c_start_time c) > 0
                 then fl (fl (of_int (downloaded_length ls + int (length (chunk ev))))
                           / float_sub (now ev) (c_start_time c))
                 else 0]
           else [])"
    by (simp add: new_edits_eq [OF step_call [OF nz]])
  show "speeds (snd (iter_content c e evs (init_loop st)))
        = map (\<lambda>i. if float_sub (now (evs ! i)) (c_start_time c) > 0
                     then fl (fl (of_int (received evs i))
                               / float_sub (now (evs ! i)) (c_start_time c))
                     else 0) [0..<length evs]"
    using iter_speeds [OF nz, of e evs "init_loop st"] by (simp add: init_loop_def)
next
  assume z: "c_total_length c = 0"
  show "fst (step c ev ls) = Some ZeroDivisionError" by (simp add: step_zero [OF z])
  show "speeds (snd (step c ev ls)) = speeds ls" by (rule step_zero_unchanged(5) [OF z])
qed

theorem throughput_guarded_witness:
  "speeds (snd (step
      \<lparr>c_args = \<lparr>url = ''u'', chat_id = 1, message_id = 2, user_mention = ''m'', user_id = 3\<rparr>,
       c_start_time = 5, c_video_title = ''v'', c_video_path = ''Videos/v.mp4'',
       c_total_length = 8\<rparr>
      \<lparr>chunk = ''abcd'', now = 5, deliver_ok = True\<rparr>
      (init_loop \<lparr>fs = Map.empty, edits = [], logged = []\<rparr>))) = [0]
   \<and> attempted_speeds (new_edits \<lparr>fs = Map.empty, edits = [], logged = []\<rparr> (outer (snd (step
      \<lparr>c_args = \<lparr>url = ''u'', chat_id = 1, message_id = 2, user_mention = ''m'', user_id = 3\<rparr>,
       c_start_time = 5, c_video_title = ''v'', c_video_path = ''Videos/v.mp4'',
       c_total_length = 8\<rparr>
      \<lparr>chunk = ''abcd'', now = 5, deliver_ok = True\<rparr>
      (init_loop \<lparr>fs = Map.empty, edits = [], logged = []\<rparr>))))) = [0]
   \<and> speeds (snd (iter_content
      \<lparr>c_args = \<lparr>url = ''u'', chat_id = 1, message_id = 2, user_mention = ''m'', user_id = 3\<rparr>,
       c_start_time = 5, c_video_title = ''v'', c_video_path = ''Videos/v.mp4'',
       c_total_length = 8\<rparr>
      Eof [\<lparr>chunk = ''abcd'', now = 5, deliver_ok = True\<rparr>,
           \<lparr>chunk = ''efgh'', now = 7, deliver_ok = True\<rparr>]
      (init_loop \<lparr>fs = Map.empty, edits = [], logged = []\<rparr>))) = [0, 4]
   \<and> fst (step
      \<lparr>c_args = \<lparr>url = ''u'', chat_id = 1, message_id = 2, user_mention = ''m'', user_id = 3\<rparr>,
       c_start_time = 5, c_video_title = ''v'', c_video_path = ''Videos/v.mp4'',
       c_total_length = 0\<rparr>
      \<lparr>chunk = ''abcd'', now = 5, deliver_ok = True\<rparr>
      (init_loop \<lparr>fs = Map.empty, edits = [], logged = []\<rparr>)) = Some ZeroDivisionError"
proof -
  let ?a = "\<lparr>url = ''u'', chat_id = 1, message_id = 2, user_mention = ''m'', user_id = 3\<rparr>"
  let ?c = "\<lparr>c_args = ?a, c_start_time = 5, c_video_title = ''v'',
             c_video_path = ''Videos/v.mp4'', c_total_length = 8\<rparr>"
  let ?cz = "\<lparr>c_args = ?a, c_start_time = 5, c_video_title = ''v'',
              c_video_path = ''Videos/v.mp4'', c_total_length = 0\<rparr>"
  let ?ev = "\<lparr>chunk = ''abcd'', now = 5, deliver_ok = True\<rparr>"
  let ?evs = "[?ev, \<lparr>chunk = ''efgh'', now = 7, deliver_ok = True\<rparr>]"
  let ?st = "\<lparr>fs = Map.empty, edits = [], logged = []\<rparr>"
  have u: "[0..<2] = [0, 1::nat]" by (simp add: upt_conv_Cons)
  show ?thesis
    using throughput_guarded [of ?c ?ev "init_loop ?st" Eof ?evs ?st]
          throughput_guarded [of ?cz ?ev "init_loop ?st" Eof ?evs ?st] u
    by (simp add: received_def float_sub_def init_loop_simps del: iter_content.simps)
qed

text \<open>
  C9 as stated fails: with a clock set back by 2 seconds between line 129 and line 136 the
  elapsed time is -2, not 0, and the throughput reported is 0, where 4 bytes divided by -2
  seconds is -2.
\<close>

theorem throughput_counterexample:
  "speeds (snd (step
      \<lparr>c_args = \<lparr>url = ''u'', chat_id = 1, message_id = 2, user_mention = ''m'', user_id = 3\<rparr>,
       c_start_time = 5, c_video_title = ''v'', c_video_path = ''Videos/v.mp4'',
       c_total_length = 8\<rparr>
      \<lparr>chunk = ''abcd'', now = 3, deliver_ok = True\<rparr>
      (init_loop \<lparr>fs = Map.empty, edits = [], logged = []\<rparr>))) = [0]
   \<and> float_sub 3 5 = - 2
   \<and> int_float_truediv 4 (- 2) = Inr (- 2)"
  by (simp add: step_nonzero Let_def init_loop_def float_sub_def int_float_truediv_def)

text \<open>
  C3. When the server reports no content-length and the body is received whole, the body
  is written to the destination file in one piece, the call returns once, with the length
  of the body as the total, and no progress notification is attempted; the state changes
  in nothing but the file and the line logged. When the body breaks off instead, still no
  progress notification is attempted.
\<close>

theorem no_content_length:
  assumes "resolve_link w = Inr (link, title, path)" and "open_ok w"
    and "video_get w = Got vr" and "v_status_code vr = 200"
    and "content_length vr = Absent"
  shows "(body_end vr = Eof \<longrightarrow>
            download_video a w st =
              (Inr (path, title, int (length (concat (map chunk (body vr))))),
               st\<lparr>fs := (fs st)(path \<mapsto> concat (map chunk (body vr))),
                  logged := logged st @ [InfoDownloaded title]\<rparr>))
         \<and> attempted (new_edits st (snd (download_video a w st))) = []"
proof (cases "body_end vr")
  case Eof
  have "download_video a w st =
              (Inr (path, title, int (length (concat (map chunk (body vr))))),
               st\<lparr>fs := (fs st)(path \<mapsto> concat (map chunk (body vr))),
                  logged := logged st @ [InfoDownloaded title]\<rparr>)"
    using assms Eof
    by (simp add: download_video_try try_body_resolved stream_body_absent
          write_file_def create_file_def add_log_def)
  then show ?thesis by (simp add: new_edits_def attempted_def)
next
  case Broken
  have "edits (snd (download_video a w st)) =
          edits st @ [Edit (chat_id a) (message_id a) (terminal_message RequestException)
                        (handler_edit_ok w)]"
    using assms Broken
    by (simp add: download_video_try try_body_resolved stream_body_absent create_file_def)
  then show ?thesis using Broken
    by (simp add: new_edits_def attempted_def terminal_message_def)
qed

theorem no_content_length_witness:
  "download_video
     \<lparr>url = ''https://terabox.example/s/1'', chat_id = 10, message_id = 20,
      user_mention = ''m'', user_id = 30\<rparr>
     \<lparr>api_get = Got \<lparr>status_code = 200, json_body = Some (JObj [(''response'',
         JArr [JObj [(''title'', JStr ''a/b''),
                     (''resolutions'', JObj [(''Fast Download'', JStr ''https://d/1'')])]])])\<rparr>,
      open_ok = True,
      video_get = Got \<lparr>v_status_code = 200, content_length = Absent,
         body = [\<lparr>chunk = ''abc'', now = 1, deliver_ok = True\<rparr>,
                 \<lparr>chunk = ''de'', now = 2, deliver_ok = True\<rparr>],
         body_end = Eof\<rparr>,
      start_time = 0, handler_edit_ok = True\<rparr>
     \<lparr>fs = Map.empty, edits = [], logged = []\<rparr>
   = (Inr (''Videos/ab.mp4'', ''ab'', 5),
      \<lparr>fs = [''Videos/ab.mp4'' \<mapsto> ''abcde''], edits = [],
       logged = [InfoDownloaded ''ab'']\<rparr>)"
  (is "download_video ?a ?w ?st = _")
proof -
  have r: "resolve_link ?w = Inr (JStr ''https://d/1'', ''ab'', ''Videos/ab.mp4'')"
    by (simp add: resolve_link_def validate_def extract_fields_def sanitize_def
          unsafe_chars_def video_path_of_def)
  show ?thesis
    using no_content_length [OF r, of _ ?a ?st] by simp
qed

text \<open>
  C4. When the first entry of \<^verbatim>\<open>response\<close> has \<^verbatim>\<open>resolutions\<close> without the key
  \<^verbatim>\<open>Fast Download\<close>, or has no \<^verbatim>\<open>title\<close>, the call fails: with the \<^verbatim>\<open>KeyError\<close> of the
  missing key (the exception of the edit in the handler, should that edit fail), raised
  before line 115 opens the destination file, so that the files on disk are as they were.
\<close>

theorem missing_field_no_file:
  assumes "api_get w = Got resp" and "status_code resp = 200"
    and "json_body resp = Some (JObj kvs)"
    and "map_of kvs ''response'' = Some (JArr (JObj item # rest))"
    and "map_of item ''resolutions'' = Some (JObj res)"
    and "map_of res ''Fast Download'' = None \<or> map_of item ''title'' = None"
  shows "fst (download_video a w st)
           = Inl (if \<not> handler_edit_ok w then TelegramError
                  else if map_of res ''Fast Download'' = None then KeyError ''Fast Download''
                  else KeyError ''title'')
         \<and> fs (snd (download_video a w st)) = fs st"
proof -
  have "resolve_link w = Inl (if map_of res ''Fast Download'' = None
                              then KeyError ''Fast Download'' else KeyError ''title'')"
    using assms(5,6) by (auto simp: resolve_link_payload [OF assms(1-4)])
  then show ?thesis by (simp add: download_video_resolve_fails)
qed

theorem missing_field_no_file_witness:
  "fst (download_video
     \<lparr>url = ''https://terabox.example/s/1'', chat_id = 10, message_id = 20,
      user_mention = ''m'', user_id = 30\<rparr>
     \<lparr>api_get = Got \<lparr>status_code = 200, json_body = Some (JObj [(''response'',
         JArr [JObj [(''title'', JStr ''v''),
                     (''resolutions'', JObj [(''HD Video'', JStr ''https://d/1'')])]])])\<rparr>,
      open_ok = True, video_get = NetError, start_time = 0, handler_edit_ok = True\<rparr>
     \<lparr>fs = Map.empty, edits = [], logged = []\<rparr>) = Inl (KeyError ''Fast Download'')
   \<and> fs (snd (download_video
     \<lparr>url = ''https://terabox.example/s/1'', chat_id = 10, message_id = 20,
      user_mention = ''m'', user_id = 30\<rparr>
     \<lparr>api_get = Got \<lparr>status_code = 200, json_body = Some (JObj [(''response'',
         JArr [JObj [(''title'', JStr ''v''),
                     (''resolutions'', JObj [(''HD Video'', JStr ''https://d/1'')])]])])\<rparr>,
      open_ok = True, video_get = NetError, start_time = 0, handler_edit_ok = True\<rparr>
     \<lparr>fs = Map.empty, edits = [], logged = []\<rparr>)) = Map.empty"
  (is "fst (download_video ?a ?w ?st) = _ \<and> _")
  using missing_field_no_file [of ?w "\<lparr>status_code = 200, json_body = Some (JObj [(''response'',
         JArr [JObj [(''title'', JStr ''v''),
                     (''resolutions'', JObj [(''HD Video'', JStr ''https://d/1'')])]])])\<rparr>"
       "[(''response'',
         JArr [JObj [(''title'', JStr ''v''),
                     (''resolutions'', JObj [(''HD Video'', JStr ''https://d/1'')])]])]"
       "[(''title'', JStr ''v''),
                     (''resolutions'', JObj [(''HD Video'', JStr ''https://d/1'')])]" "[]"
       "[(''HD Video'', JStr ''https://d/1'')]" ?a ?st]
  by simp

text \<open>
  C6. When the body breaks off after the server declared a (non-zero) content-length, the
  call fails: with the network error, raised again by the handler (or with the exception
  of the handler's own edit, should that fail), so nothing is returned; and the
  destination file stays on disk, holding the chunks written before the failure. A
  declared length of 0 is left out: there the first chunk already ends the call with a
  \<^verbatim>\<open>ZeroDivisionError\<close> at line 137.
\<close>

theorem midstream_failure:
  assumes "resolve_link w = Inr (link, title, path)" and "open_ok w"
    and "video_get w = Got vr" and "v_status_code vr = 200"
    and "content_length vr = Declared n" and "n \<noteq> 0"
    and "body_end vr = Broken"
  shows "fst (download_video a w st)
           = Inl (if handler_edit_ok w then RequestException else TelegramError)
         \<and> fs (snd (download_video a w st)) = (fs st)(path \<mapsto> concat (map chunk (body vr)))"
  using download_video_declared [OF assms(1-6), of a st] assms(7) by simp

theorem midstream_failure_witness:
  "fst (download_video
     \<lparr>url = ''https://terabox.example/s/1'', chat_id = 10, message_id = 20,
      user_mention = ''m'', user_id = 30\<rparr>
     \<lparr>api_get = Got \<lparr>status_code = 200, json_body = Some (JObj [(''response'',
         JArr [JObj [(''title'', JStr ''v''),
                     (''resolutions'', JObj [(''Fast Download'', JStr ''https://d/1'')])]])])\<rparr>,
      open_ok = True,
      video_get = Got \<lparr>v_status_code = 200, content_length = Declared 10,
         body = [\<lparr>chunk = ''abc'', now = 1, deliver_ok = True\<rparr>,
                 \<lparr>chunk = ''de'', now = 2, deliver_ok = True\<rparr>],
         body_end = Broken\<rparr>,
      start_time = 0, handler_edit_ok = True\<rparr>
     \<lparr>fs = Map.empty, edits = [], logged = []\<rparr>) = Inl RequestException
   \<and> fs (snd (download_video
     \<lparr>url = ''https://terabox.example/s/1'', chat_id = 10, message_id = 20,
      user_mention = ''m'', user_id = 30\<rparr>
     \<lparr>api_get = Got \<lparr>status_code = 200, json_body = Some (JObj [(''response'',
         JArr [JObj [(''title'', JStr ''v''),
                     (''resolutions'', JObj [(''Fast Download'', JStr ''https://d/1'')])]])])\<rparr>,
      open_ok = True,
      video_get = Got \<lparr>v_status_code = 200, content_length = Declared 10,
         body = [\<lparr>chunk = ''abc'', now = 1, deliver_ok = True\<rparr>,
                 \<lparr>chunk = ''de'', now = 2, deliver_ok = True\<rparr>],
         body_end = Broken\<rparr>,
      start_time = 0, handler_edit_ok = True\<rparr>
     \<lparr>fs = Map.empty, edits = [], logged = []\<rparr>)) = [''Videos/v.mp4'' \<mapsto> ''abcde'']"
  (is "fst (download_video ?a ?w ?st) = _ \<and> _")
proof -
  have r: "resolve_link ?w = Inr (JStr ''https://d/1'', ''v'', ''Videos/v.mp4'')"
    by (simp add: resolve_link_def validate_def extract_fields_def sanitize_def
          unsafe_chars_def video_path_of_def)
  show ?thesis
    using midstream_failure [OF r, of _ 10 ?a ?st] by simp
qed

text \<open>
  C1, as amended. A call that returns after the server declared a content-length returns
  that declared value as the total (line 159 returns \<^verbatim>\<open>total_length\<close>, which line 127
  set from the header), while the file holds the chunks received; the total is the number
  of bytes written whenever the chunks add up to the declared length.
\<close>

theorem declared_total_returned:
  assumes "fst (download_video a w st) = Inr (p, t, total_bytes)"
    and "video_get w = Got vr" and "content_length vr = Declared n"
  shows "total_bytes = n
         \<and> fs (snd (download_video a w st)) p = Some (concat (map chunk (body vr)))
         \<and> (int (length (concat (map chunk (body vr)))) = n \<longrightarrow>
              total_bytes = int (length (the (fs (snd (download_video a w st)) p))))"
proof -
  obtain st' where tb: "try_body a w st = (Inr (p, t, total_bytes), st')"
    and dv: "download_video a w st = (Inr (p, t, total_bytes), st')"
    using download_video_Inr [OF assms(1)] by blast
  obtain link st'' where rl: "resolve_link w = Inr (link, t, p)" and "open_ok w"
    and sb: "stream_body a w t p (create_file p st) = (Inr total_bytes, st'')"
    and st': "st' = add_log (InfoDownloaded t) st''"
    using try_body_Inr [OF tb] by blast
  have ok: "v_status_code vr = 200"
    using sb assms(2) by (auto simp: stream_body_def split: if_splits)
  let ?c = "ctx_of a w t p n"
  let ?it = "iter_content ?c (body_end vr) (body vr) (init_loop (create_file p st))"
  obtain r ls where it: "?it = (r, ls)" by (cases ?it)
  have "stream_body a w t p (create_file p st) =
          (case r of Some err \<Rightarrow> (Inl err, outer ls) | None \<Rightarrow> (Inr n, outer ls))"
    using assms(2,3) ok it by (simp add: stream_body_declared split: option.split)
  with sb have r: "r = None" and total_bytes: "total_bytes = n" and ls: "st'' = outer ls"
    by (auto split: option.splits)
  have "fst ?it = None" using it r by simp
  moreover have "fs (outer (init_loop (create_file p st))) (c_video_path ?c) = Some []"
    by (simp add: outer_init_loop c_video_path_ctx_of fs_create_file)
  ultimately have "fs (outer (snd ?it))
      = (fs (outer (init_loop (create_file p st))))(c_video_path ?c \<mapsto> [] @ concat (map chunk (body vr)))"
    by (rule iter_None_fs)
  then have "fs st'' p = Some (concat (map chunk (body vr)))"
    using it ls by (simp add: c_video_path_ctx_of)
  then have f: "fs (snd (download_video a w st)) p = Some (concat (map chunk (body vr)))"
    using dv st' by (simp add: add_log_def)
  show ?thesis using total_bytes f by simp
qed

theorem declared_total_returned_witness:
  "fs (snd (download_video
     \<lparr>url = ''https://terabox.example/s/1'', chat_id = 10, message_id = 20,
      user_mention = ''m'', user_id = 30\<rparr>
     \<lparr>api_get = Got \<lparr>status_code = 200, json_body = Some (JObj [(''response'',
         JArr [JObj [(''title'', JStr ''v''),
                     (''resolutions'', JObj [(''Fast Download'', JStr ''https://d/1'')])]])])\<rparr>,
      open_ok = True,
      video_get = Got \<lparr>v_status_code = 200, content_length = Declared 5,
         body = [\<lparr>chunk = ''abc'', now = 1, deliver_ok = True\<rparr>,
                 \<lparr>chunk = ''de'', now = 2, deliver_ok = True\<rparr>],
         body_end = Eof\<rparr>,
      start_time = 0, handler_edit_ok = True\<rparr>
     \<lparr>fs = Map.empty, edits = [], logged = []\<rparr>)) ''Videos/v.mp4'' = Some ''abcde''"
  (is "fs (snd (download_video ?a ?w ?st)) _ = _")
proof -
  have r: "resolve_link ?w = Inr (JStr ''https://d/1'', ''v'', ''Videos/v.mp4'')"
    by (simp add: resolve_link_def validate_def extract_fields_def sanitize_def
          unsafe_chars_def video_path_of_def)
  have d: "fst (download_video ?a ?w ?st) = Inr (''Videos/v.mp4'', ''v'', 5)"
    using download_video_declared(1) [OF r, of _ 5 ?a ?st] by simp
  show ?thesis
    using declared_total_returned [OF d, of _ 5] by simp
qed

text \<open>
  C1 as stated fails: with a declared length of 10 and a body of 4 bytes the call returns
  10 as the total and the file holds 4 bytes.
\<close>

theorem declared_total_counterexample:
  "fst (download_video
     \<lparr>url = ''https://terabox.example/s/1'', chat_id = 10, message_id = 20,
      user_mention = ''m'', user_id = 30\<rparr>
     \<lparr>api_get = Got \<lparr>status_code = 200, json_body = Some (JObj [(''response'',
         JArr [JObj [(''title'', JStr ''v''),
                     (''resolutions'', JObj [(''Fast Download'', JStr ''https://d/1'')])]])])\<rparr>,
      open_ok = True,
      video_get = Got \<lparr>v_status_code = 200, content_length = Declared 10,
         body = [\<lparr>chunk = ''abcd'', now = 1, deliver_ok = True\<rparr>],
         body_end = Eof\<rparr>,
      start_time = 0, handler_edit_ok = True\<rparr>
     \<lparr>fs = Map.empty, edits = [], logged = []\<rparr>) = Inr (''Videos/v.mp4'', ''v'', 10)
   \<and> fs (snd (download_video
     \<lparr>url = ''https://terabox.example/s/1'', chat_id = 10, message_id = 20,
      user_mention = ''m'', user_id = 30\<rparr>
     \<lparr>api_get = Got \<lparr>status_code = 200, json_body = Some (JObj [(''response'',
         JArr [JObj [(''title'', JStr ''v''),
                     (''resolutions'', JObj [(''Fast Download'', JStr ''https://d/1'')])]])])\<rparr>,
      open_ok = True,
      video_get = Got \<lparr>v_status_code = 200, content_length = Declared 10,
         body = [\<lparr>chunk = ''abcd'', now = 1, deliver_ok = True\<rparr>],
         body_end = Eof\<rparr>,
      start_time = 0, handler_edit_ok = True\<rparr>
     \<lparr>fs = Map.empty, edits = [], logged = []\<rparr>)) ''Videos/v.mp4'' = Some ''abcd''
   \<and> (10::int) \<noteq> int (length ''abcd'')"
  (is "fst (download_video ?a ?w ?st) = _ \<and> _")
proof -
  have r: "resolve_link ?w = Inr (JStr ''https://d/1'', ''v'', ''Videos/v.mp4'')"
    by (simp add: resolve_link_def validate_def extract_fields_def sanitize_def
          unsafe_chars_def video_path_of_def)
  show ?thesis
    using download_video_declared [OF r, of _ 10 ?a ?st] by simp
qed

text \<open>
  C8, as amended. The call fails exactly when the code inside \<^verbatim>\<open>try\<close> raises. The handler
  has then added one edit of the chat message to those made inside \<^verbatim>\<open>try\<close>, as the last
  one (lines 163 and 168): it carries the terminal text of the error caught, and is the only
  edit of the call with a terminal text. The call raises the error caught, or the exception
  of that edit when the edit fails. A call that returns has sent no terminal text.
\<close>

theorem failure_notifies_and_raises:
  "(case fst (try_body a w st) of
      Inl e0 \<Rightarrow>
        fst (download_video a w st) = Inl (if handler_edit_ok w then e0 else TelegramError)
        \<and> filter terminal (new_edits st (snd (download_video a w st)))
            = [Edit (chat_id a) (message_id a) (terminal_message e0) (handler_edit_ok w)]
        \<and> new_edits st (snd (download_video a w st))
            = new_edits st (snd (try_body a w st))
              @ [Edit (chat_id a) (message_id a) (terminal_message e0) (handler_edit_ok w)]
    | Inr r \<Rightarrow>
        fst (download_video a w st) = Inr r
        \<and> filter terminal (new_edits st (snd (download_video a w st))) = [])"
proof -
  obtain ne where ne: "edits (snd (try_body a w st)) = edits st @ ne" "filter terminal ne = []"
    using try_body_no_terminal [of a w st] by blast
  obtain r st' where tb: "try_body a w st = (r, st')" by (cases "try_body a w st")
  have st': "edits st' = edits st @ ne" using ne(1) tb by simp
  have tbf: "fst (try_body a w st) = r" using tb by simp
  show ?thesis
  proof (cases r)
    case (Inl e0)
    have d: "download_video a w st =
          (Inl (if handler_edit_ok w then e0 else TelegramError),
           st'\<lparr>edits := edits st' @ [Edit (chat_id a) (message_id a) (terminal_message e0)
                                        (handler_edit_ok w)],
               logged := logged st' @ [terminal_log e0]\<rparr>)"
      using tb Inl by (simp add: download_video_try)
    have e: "edits (snd (download_video a w st))
               = edits st @ (ne @ [Edit (chat_id a) (message_id a) (terminal_message e0)
                                     (handler_edit_ok w)])"
      using d st' by simp
    have t: "terminal (Edit (chat_id a) (message_id a) (terminal_message e0) (handler_edit_ok w))"
      by (simp add: terminal_message_def)
    have f: "fst (download_video a w st) = Inl (if handler_edit_ok w then e0 else TelegramError)"
      using d by simp
    have n: "new_edits st (snd (try_body a w st)) = ne" by (rule new_edits_eq [OF ne(1)])
    show ?thesis
      unfolding tbf Inl new_edits_eq [OF e] n using f ne(2) t by simp
  next
    case (Inr res)
    have d: "download_video a w st = (Inr res, st')"
      using tb Inr by (simp add: download_video_try)
    have e: "edits (snd (download_video a w st)) = edits st @ ne" using d st' by simp
    have f: "fst (download_video a w st) = Inr res" using d by simp
    show ?thesis
      unfolding tbf Inr new_edits_eq [OF e] using f ne(2) by simp
  qed
qed

theorem failure_notifies_and_raises_witness:
  "new_edits \<lparr>fs = Map.empty, edits = [], logged = []\<rparr>
     (snd (download_video
     \<lparr>url = ''https://terabox.example/s/1'', chat_id = 10, message_id = 20,
      user_mention = ''m'', user_id = 30\<rparr>
     \<lparr>api_get = Got \<lparr>status_code = 503, json_body = None\<rparr>,
      open_ok = True, video_get = NetError, start_time = 0, handler_edit_ok = True\<rparr>
     \<lparr>fs = Map.empty, edits = [], logged = []\<rparr>))
   = [Edit 10 20 (DownloadFailedMsg (ApiRequestFailed 503)) True]
   \<and> filter terminal (new_edits \<lparr>fs = Map.empty, edits = [], logged = []\<rparr>
     (snd (download_video
     \<lparr>url = ''https://terabox.example/s/1'', chat_id = 10, message_id = 20,
      user_mention = ''m'', user_id = 30\<rparr>
     \<lparr>api_get = Got \<lparr>status_code = 200, json_body = Some (JObj [(''response'',
         JArr [JObj [(''title'', JStr ''v''),
                     (''resolutions'', JObj [(''Fast Download'', JStr ''https://d/1'')])]])])\<rparr>,
      open_ok = True,
      video_get = Got \<lparr>v_status_code = 200, content_length = Declared 10,
         body = [\<lparr>chunk = ''abcde'', now = 1, deliver_ok = True\<rparr>],
         body_end = Broken\<rparr>,
      start_time = 0, handler_edit_ok = True\<rparr>
     \<lparr>fs = Map.empty, edits = [], logged = []\<rparr>)))
   = [Edit 10 20 (NetworkErrorMsg RequestException) True]"
proof -
  let ?a = "\<lparr>url = ''https://terabox.example/s/1'', chat_id = 10, message_id = 20,
             user_mention = ''m'', user_id = 30\<rparr>"
  let ?wa = "\<lparr>api_get = Got \<lparr>status_code = 503, json_body = None\<rparr>,
      open_ok = True, video_get = NetError, start_time = 0, handler_edit_ok = True\<rparr>"
  let ?w = "\<lparr>api_get = Got \<lparr>status_code = 200, json_body = Some (JObj [(''response'',
         JArr [JObj [(''title'', JStr ''v''),
                     (''resolutions'', JObj [(''Fast Download'', JStr ''https://d/1'')])]])])\<rparr>,
      open_ok = True,
      video_get = Got \<lparr>v_status_code = 200, content_length = Declared 10,
         body = [\<lparr>chunk = ''abcde'', now = 1, deliver_ok = True\<rparr>],
         body_end = Broken\<rparr>,
      start_time = 0, handler_edit_ok = True\<rparr>"
  let ?st = "\<lparr>fs = Map.empty, edits = [], logged = []\<rparr>"
  have t0: "try_body ?a ?wa ?st = (Inl (ApiRequestFailed 503), ?st)"
    by (simp add: try_body_def resolve_link_def)
  have r: "resolve_link ?w = Inr (JStr ''https://d/1'', ''v'', ''Videos/v.mp4'')"
    by (simp add: resolve_link_def validate_def extract_fields_def sanitize_def
          unsafe_chars_def video_path_of_def)
  have d: "fst (download_video ?a ?w ?st) = Inl RequestException"
    using download_video_declared(1) [OF r, of _ 10 ?a ?st] by simp
  have a: "new_edits ?st (snd (download_video ?a ?wa ?st))
             = [Edit 10 20 (DownloadFailedMsg (ApiRequestFailed 503)) True]"
    using failure_notifies_and_raises [of ?a ?wa ?st] t0
    by (simp add: terminal_message_def new_edits_def)
  have b: "filter terminal (new_edits ?st (snd (download_video ?a ?w ?st)))
             = [Edit 10 20 (NetworkErrorMsg RequestException) True]"
    using failure_notifies_and_raises [of ?a ?w ?st] d
    by (auto simp: terminal_message_def split: sum.splits)
  from a b show ?thesis by simp
qed

text \<open>
  C8 as stated fails: when the resolution request fails with a network error, the call
  itself sends \<open>Network Error: ...\<close> to the chat before raising.
\<close>

theorem no_user_notification_counterexample:
  "fst (download_video
     \<lparr>url = ''https://terabox.example/s/1'', chat_id = 10, message_id = 20,
      user_mention = ''m'', user_id = 30\<rparr>
     \<lparr>api_get = NetError, open_ok = True, video_get = NetError, start_time = 0,
      handler_edit_ok = True\<rparr>
     \<lparr>fs = Map.empty, edits = [], logged = []\<rparr>) = Inl RequestException
   \<and> edits (snd (download_video
     \<lparr>url = ''https://terabox.example/s/1'', chat_id = 10, message_id = 20,
      user_mention = ''m'', user_id = 30\<rparr>
     \<lparr>api_get = NetError, open_ok = True, video_get = NetError, start_time = 0,
      handler_edit_ok = True\<rparr>
     \<lparr>fs = Map.empty, edits = [], logged = []\<rparr>))
       = [Edit 10 20 (NetworkErrorMsg RequestException) True]"
  by (simp add: download_video_try try_body_def resolve_link_def terminal_message_def)

text \<open>
  C2, as amended. In an iteration that computes the percentage \<open>pct\<close> (the declared total is
  not 0), a progress notification is attempted exactly when the float difference between
  \<open>pct\<close> and the watermark \<^verbatim>\<open>last_percentage_update\<close> is at least 7; the watermark becomes
  \<open>pct\<close> itself, not the boundary crossed, when the notification is delivered, and stays
  when it is not. Hence over any run the delivered percentages are at least 7 apart in that
  difference, the first at least 7. And for 100 chunks of one size \<open>m > 0\<close>, a declared
  total of \<open>100 m\<close> and deliveries that all succeed, the notifications delivered are those at
  7, 14, ..., 98 percent, one for each boundary.
\<close>

theorem cadence_seven:
  "(percentage_of (downloaded_length ls + int (length (chunk ev))) (c_total_length c) = Inr pct
      \<longrightarrow> attempted (new_edits (outer ls) (outer (snd (step c ev ls))))
             = (if float_sub pct (last_percentage_update ls) \<ge> 7 then [pct] else [])
        \<and> delivered (new_edits (outer ls) (outer (snd (step c ev ls))))
             = (if float_sub pct (last_percentage_update ls) \<ge> 7 \<and> deliver_ok ev then [pct] else [])
        \<and> last_percentage_update (snd (step c ev ls))
             = (if float_sub pct (last_percentage_update ls) \<ge> 7 \<and> deliver_ok ev then pct
                else last_percentage_update ls))
   \<and> spaced 0 (delivered (new_edits st (outer (snd (iter_content c e evs (init_loop st))))))
   \<and> (0 < m \<and> length evs = 100 \<and> (\<forall>ev\<in>set evs. length (chunk ev) = m \<and> deliver_ok ev)
        \<and> c_total_length c = 100 * int m
      \<longrightarrow> delivered (new_edits st (outer (snd (iter_content c e evs (init_loop st)))))
            = map (\<lambda>k. 7 * of_nat k) [1..<15])"
proof (intro conjI impI)
  assume h: "percentage_of (downloaded_length ls + int (length (chunk ev))) (c_total_length c) = Inr pct"
  show "attempted (new_edits (outer ls) (outer (snd (step c ev ls))))
             = (if float_sub pct (last_percentage_update ls) \<ge> 7 then [pct] else [])"
    by (rule step_new_edits(1) [OF h])
  show "delivered (new_edits (outer ls) (outer (snd (step c ev ls))))
             = (if float_sub pct (last_percentage_update ls) \<ge> 7 \<and> deliver_ok ev then [pct] else [])"
    by (rule step_new_edits(2) [OF h])
  show "last_percentage_update (snd (step c ev ls))
             = (if float_sub pct (last_percentage_update ls) \<ge> 7 \<and> deliver_ok ev then pct
                else last_percentage_update ls)"
    by (rule step_vars(1) [OF h])
next
  show "spaced 0 (delivered (new_edits st (outer (snd (iter_content c e evs (init_loop st))))))"
    by (rule iter_spaced)
next
  assume "0 < m \<and> length evs = 100 \<and> (\<forall>ev\<in>set evs. length (chunk ev) = m \<and> deliver_ok ev)
        \<and> c_total_length c = 100 * int m"
  then show "delivered (new_edits st (outer (snd (iter_content c e evs (init_loop st)))))
            = map (\<lambda>k. 7 * of_nat k) [1..<15]"
    using hundred_chunks by blast
qed

theorem cadence_seven_witness:
  "last_percentage_update (snd (step
      \<lparr>c_args = \<lparr>url = ''u'', chat_id = 1, message_id = 2, user_mention = ''m'', user_id = 3\<rparr>,
       c_start_time = 0, c_video_title = ''v'', c_video_path = ''Videos/v.mp4'',
       c_total_length = 200\<rparr>
      \<lparr>chunk = ''ab'', now = 1, deliver_ok = True\<rparr>
      \<lparr>downloaded_length = 14, last_percentage_update = 0, computed = [], speeds = [],
       outer = \<lparr>fs = Map.empty, edits = [], logged = []\<rparr>\<rparr>)) = 8
   \<and> delivered (new_edits \<lparr>fs = Map.empty, edits = [], logged = []\<rparr>
        (outer (snd (iter_content
          \<lparr>c_args = \<lparr>url = ''u'', chat_id = 1, message_id = 2, user_mention = ''m'',
                     user_id = 3\<rparr>,
           c_start_time = 0, c_video_title = ''v'', c_video_path = ''Videos/v.mp4'',
           c_total_length = 200\<rparr>
          Eof (replicate 100 \<lparr>chunk = ''ab'', now = 1, deliver_ok = True\<rparr>)
          (init_loop \<lparr>fs = Map.empty, edits = [], logged = []\<rparr>)))))
       = [7, 14, 21, 28, 35, 42, 49, 56, 63, 70, 77, 84, 91, 98]"
  (is "last_percentage_update (snd (step ?c ?ev ?ls)) = _ \<and>
       delivered (new_edits ?st (outer (snd (iter_content _ _ ?evs _)))) = _")
proof -
  have u: "[1..<15] = [1, 2, 3, 4, 5, 6, 7, 8, 9, 10, 11, 12, 13, 14::nat]"
    by (simp add: upt_conv_Cons)
  have p: "percentage_of (downloaded_length ?ls + int (length (chunk ?ev))) (c_total_length ?c)
             = Inr 8"
    by (simp add: percentage_of_def int_truediv_def)
  show ?thesis
    using cadence_seven [of ?ls ?ev ?c 8 ?st Eof ?evs 2] p u by (simp add: float_sub_def)
qed

text \<open>
  C2 as stated fails when deliveries fail: with a declared total of 20 and chunks of 2, 1
  and 1 bytes whose notifications are not delivered, notifications are attempted at 10, 15
  and 20 percent, less than 7 apart and two of them between the boundaries 14 and 21, and
  the watermark is not set to the percentage notified: it is still 0 at the end.
\<close>

theorem cadence_counterexample:
  "attempted (new_edits \<lparr>fs = Map.empty, edits = [], logged = []\<rparr>
     (outer (snd (iter_content
        \<lparr>c_args = \<lparr>url = ''u'', chat_id = 1, message_id = 2, user_mention = ''m'', user_id = 3\<rparr>,
         c_start_time = 0, c_video_title = ''v'', c_video_path = ''Videos/v.mp4'',
         c_total_length = 20\<rparr>
        Eof [\<lparr>chunk = ''ab'', now = 1, deliver_ok = False\<rparr>,
             \<lparr>chunk = ''c'', now = 2, deliver_ok = False\<rparr>,
             \<lparr>chunk = ''d'', now = 3, deliver_ok = False\<rparr>]
        (init_loop \<lparr>fs = Map.empty, edits = [], logged = []\<rparr>)))))
   = [10, 15, 20]
   \<and> last_percentage_update (snd (iter_content
        \<lparr>c_args = \<lparr>url = ''u'', chat_id = 1, message_id = 2, user_mention = ''m'', user_id = 3\<rparr>,
         c_start_time = 0, c_video_title = ''v'', c_video_path = ''Videos/v.mp4'',
         c_total_length = 20\<rparr>
        Eof [\<lparr>chunk = ''ab'', now = 1, deliver_ok = False\<rparr>,
             \<lparr>chunk = ''c'', now = 2, deliver_ok = False\<rparr>,
             \<lparr>chunk = ''d'', now = 3, deliver_ok = False\<rparr>]
        (init_loop \<lparr>fs = Map.empty, edits = [], logged = []\<rparr>))) = 0"
  by (simp add: step_nonzero Let_def init_loop_def float_sub_def add_edit_def add_log_def
        write_file_def new_edits_def attempted_def progress_message_def)

text \<open>
  C10. The watermark \<^verbatim>\<open>last_percentage_update\<close> moves only with a delivered notification
  (line 152 is reached only when the call of line 145 returned). An iteration whose delivery
  fails leaves the watermark where it was; an iteration that changes the watermark delivered
  exactly one notification, at the new value of the watermark. After a failed attempt, with
  a positive declared total, the very next chunk attempts again, at its own percentage,
  whatever its size. And when the loop is left the watermark is the percentage of the last
  notification delivered during the run, 0 when none was.
\<close>

theorem watermark_follows_delivery:
  "(\<not> deliver_ok ev1 \<longrightarrow>
       last_percentage_update (snd (step c ev1 ls)) = last_percentage_update ls)
   \<and> (last_percentage_update (snd (step c ev1 ls)) \<noteq> last_percentage_update ls \<longrightarrow>
        delivered (new_edits (outer ls) (outer (snd (step c ev1 ls))))
          = [last_percentage_update (snd (step c ev1 ls))])
   \<and> (0 < c_total_length c \<and> \<not> deliver_ok ev1
        \<and> attempted (new_edits (outer ls) (outer (snd (step c ev1 ls)))) \<noteq> [] \<longrightarrow>
        attempted (new_edits (outer (snd (step c ev1 ls)))
                     (outer (snd (step c ev2 (snd (step c ev1 ls))))))
          = [fl (of_int (100 * (downloaded_length ls + int (length (chunk ev1))
                                  + int (length (chunk ev2)))) / of_int (c_total_length c))])
   \<and> last_percentage_update (snd (iter_content c e evs (init_loop st)))
        = watermark_of (delivered (new_edits st
             (outer (snd (iter_content c e evs (init_loop st))))))"
proof (intro conjI impI)
  show "last_percentage_update (snd (iter_content c e evs (init_loop st)))
        = watermark_of (delivered (new_edits st
             (outer (snd (iter_content c e evs (init_loop st))))))"
    by (rule iter_watermark_new)
next
  assume "\<not> deliver_ok ev1"
  then show "last_percentage_update (snd (step c ev1 ls)) = last_percentage_update ls"
  proof (cases "c_total_length c = 0")
    case True
    then show ?thesis by (simp add: step_zero_unchanged)
  next
    case False
    then obtain pct where "percentage_of (downloaded_length ls + int (length (chunk ev1)))
        (c_total_length c) = Inr pct"
      using percentage_of_total by blast
    from step_vars(1) [OF this] \<open>\<not> deliver_ok ev1\<close> show ?thesis by simp
  qed
next
  assume ch: "last_percentage_update (snd (step c ev1 ls)) \<noteq> last_percentage_update ls"
  then have nz: "c_total_length c \<noteq> 0" by (auto simp: step_zero_unchanged)
  then obtain pct where pct: "percentage_of (downloaded_length ls + int (length (chunk ev1)))
        (c_total_length c) = Inr pct"
    using percentage_of_total by blast
  from ch step_vars(1) [OF pct]
  have "float_sub pct (last_percentage_update ls) \<ge> 7 \<and> deliver_ok ev1"
    and "last_percentage_update (snd (step c ev1 ls)) = pct"
    by (auto split: if_splits)
  then show "delivered (new_edits (outer ls) (outer (snd (step c ev1 ls))))
          = [last_percentage_update (snd (step c ev1 ls))]"
    by (simp add: step_new_edits(2) [OF pct])
next
  assume h: "0 < c_total_length c \<and> \<not> deliver_ok ev1
        \<and> attempted (new_edits (outer ls) (outer (snd (step c ev1 ls)))) \<noteq> []"
  let ?t = "c_total_length c"
  let ?d1 = "downloaded_length ls + int (length (chunk ev1))"
  let ?ls1 = "snd (step c ev1 ls)"
  let ?p1 = "fl (of_int (100 * ?d1) / of_int ?t)"
  let ?p2 = "fl (of_int (100 * (?d1 + int (length (chunk ev2)))) / of_int ?t)"
  have nz: "?t \<noteq> 0" using h by simp
  have p1: "percentage_of ?d1 ?t = Inr ?p1"
    using nz by (simp add: percentage_of_Inr)
  have due1: "float_sub ?p1 (last_percentage_update ls) \<ge> 7"
    using h step_new_edits(1) [OF p1] by (auto split: if_splits)
  have l1: "last_percentage_update ?ls1 = last_percentage_update ls"
    using step_vars(1) [OF p1] h by simp
  have d1: "downloaded_length ?ls1 = ?d1" by (rule step_vars(3) [OF p1])
  have p2: "percentage_of (downloaded_length ?ls1 + int (length (chunk ev2))) ?t = Inr ?p2"
    using nz d1 by (simp add: percentage_of_Inr)
  have "?p1 \<le> ?p2" using h by (intro pct_mono) simp
  then have "?p1 - last_percentage_update ls \<le> ?p2 - last_percentage_update ls" by simp
  then have "float_sub ?p1 (last_percentage_update ls) \<le> float_sub ?p2 (last_percentage_update ls)"
    unfolding float_sub_def by (rule fl_mono)
  with due1 l1
  have due2: "float_sub ?p2 (last_percentage_update ?ls1) \<ge> 7"
    by simp
  show "attempted (new_edits (outer ?ls1) (outer (snd (step c ev2 ?ls1))))
          = [fl (of_int (100 * (downloaded_length ls + int (length (chunk ev1))
                                  + int (length (chunk ev2)))) / of_int (c_total_length c))]"
    using step_new_edits(1) [OF p2] due2 by simp
qed

theorem watermark_follows_delivery_witness:
  "last_percentage_update (snd (step
      \<lparr>c_args = \<lparr>url = ''u'', chat_id = 1, message_id = 2, user_mention = ''m'', user_id = 3\<rparr>,
       c_start_time = 0, c_video_title = ''v'', c_video_path = ''Videos/v.mp4'',
       c_total_length = 20\<rparr>
      \<lparr>chunk = ''ab'', now = 1, deliver_ok = False\<rparr>
      \<lparr>downloaded_length = 0, last_percentage_update = 0, computed = [], speeds = [],
       outer = \<lparr>fs = Map.empty, edits = [], logged = []\<rparr>\<rparr>)) = 0
   \<and> attempted (new_edits
        (outer (snd (step
      \<lparr>c_args = \<lparr>url = ''u'', chat_id = 1, message_id = 2, user_mention = ''m'', user_id = 3\<rparr>,
       c_start_time = 0, c_video_title = ''v'', c_video_path = ''Videos/v.mp4'',
       c_total_length = 20\<rparr>
      \<lparr>chunk = ''ab'', now = 1, deliver_ok = False\<rparr>
      \<lparr>downloaded_length = 0, last_percentage_update = 0, computed = [], speeds = [],
       outer = \<lparr>fs = Map.empty, edits = [], logged = []\<rparr>\<rparr>)))
        (outer (snd (step
      \<lparr>c_args = \<lparr>url = ''u'', chat_id = 1, message_id = 2, user_mention = ''m'', user_id = 3\<rparr>,
       c_start_time = 0, c_video_title = ''v'', c_video_path = ''Videos/v.mp4'',
       c_total_length = 20\<rparr>
      \<lparr>chunk = ''c'', now = 2, deliver_ok = True\<rparr>
      (snd (step
      \<lparr>c_args = \<lparr>url = ''u'', chat_id = 1, message_id = 2, user_mention = ''m'', user_id = 3\<rparr>,
       c_start_time = 0, c_video_title = ''v'', c_video_path = ''Videos/v.mp4'',
       c_total_length = 20\<rparr>
      \<lparr>chunk = ''ab'', now = 1, deliver_ok = False\<rparr>
      \<lparr>downloaded_length = 0, last_percentage_update = 0, computed = [], speeds = [],
       outer = \<lparr>fs = Map.empty, edits = [], logged = []\<rparr>\<rparr>)))))) = [15]"
  (is "last_percentage_update (snd (step ?c ?ev1 ?ls)) = _ \<and>
       attempted (new_edits _ (outer (snd (step _ ?ev2 _)))) = _")
proof -
  have p: "percentage_of (downloaded_length ?ls + int (length (chunk ?ev1))) (c_total_length ?c)
             = Inr 10"
    by (simp add: percentage_of_def int_truediv_def)
  have a: "attempted (new_edits (outer ?ls) (outer (snd (step ?c ?ev1 ?ls)))) = [10]"
    using step_new_edits(1) [OF p] by (simp add: float_sub_def)
  show ?thesis
    using watermark_follows_delivery [of ?ev1 ?c ?ls ?ev2] a by simp
qed

text \<open>
  C5, as amended. With a declared total that is not negative, the percentages computed by
  the successive iterations of one transfer never decrease, the percentages of the
  notifications attempted are among them in the same order, and so never decrease either.
  (\<^verbatim>\<open>computed\<close> records the value of line 137 at each iteration: for a declared total
  other than 0 it is the list of the percentages of the bytes received, chunk after chunk.)
\<close>

theorem percentages_nondecreasing:
  assumes "0 \<le> c_total_length c"
  shows "sorted (computed (snd (iter_content c e evs (init_loop st))))
       \<and> subseq (attempted (new_edits st (outer (snd (iter_content c e evs (init_loop st))))))
                (computed (snd (iter_content c e evs (init_loop st))))
       \<and> sorted (attempted (new_edits st (outer (snd (iter_content c e evs (init_loop st))))))
       \<and> (c_total_length c \<noteq> 0 \<longrightarrow>
            computed (snd (iter_content c e evs (init_loop st)))
              = map (\<lambda>i. fl (of_int (100 * received evs i) / of_int (c_total_length c)))
                    [0..<length evs])"
proof -
  obtain ne where ne: "edits (outer (snd (iter_content c e evs (init_loop st)))) = edits st @ ne"
    "subseq (attempted ne) (computed (snd (iter_content c e evs (init_loop st))))"
    "sorted (computed (snd (iter_content c e evs (init_loop st))))"
    using iter_monotone [OF assms] by blast
  have "sorted (attempted ne)"
    using ne(2,3) by (auto simp: subseq_conv_nths sorted_nths)
  then have a: "sorted (computed (snd (iter_content c e evs (init_loop st))))
       \<and> subseq (attempted (new_edits st (outer (snd (iter_content c e evs (init_loop st))))))
                (computed (snd (iter_content c e evs (init_loop st))))
       \<and> sorted (attempted (new_edits st (outer (snd (iter_content c e evs (init_loop st))))))"
    using ne(2,3) by (simp add: new_edits_eq [OF ne(1)])
  have b: "computed (snd (iter_content c e evs (init_loop st)))
              = map (\<lambda>i. fl (of_int (100 * received evs i) / of_int (c_total_length c)))
                    [0..<length evs]"
    if "c_total_length c \<noteq> 0"
    using iter_computed [OF that, of e evs "init_loop st"] by (simp add: init_loop_simps)
  from a b show ?thesis by blast
qed

theorem percentages_nondecreasing_witness:
  "computed (snd (iter_content
      \<lparr>c_args = \<lparr>url = ''u'', chat_id = 1, message_id = 2, user_mention = ''m'', user_id = 3\<rparr>,
       c_start_time = 0, c_video_title = ''v'', c_video_path = ''Videos/v.mp4'',
       c_total_length = 20\<rparr>
      Eof [\<lparr>chunk = ''ab'', now = 1, deliver_ok = False\<rparr>,
           \<lparr>chunk = ''c'', now = 2, deliver_ok = True\<rparr>]
      (init_loop \<lparr>fs = Map.empty, edits = [], logged = []\<rparr>))) = [10, 15]
   \<and> sorted (attempted (new_edits \<lparr>fs = Map.empty, edits = [], logged = []\<rparr>
        (outer (snd (iter_content
      \<lparr>c_args = \<lparr>url = ''u'', chat_id = 1, message_id = 2, user_mention = ''m'', user_id = 3\<rparr>,
       c_start_time = 0, c_video_title = ''v'', c_video_path = ''Videos/v.mp4'',
       c_total_length = 20\<rparr>
      Eof [\<lparr>chunk = ''ab'', now = 1, deliver_ok = False\<rparr>,
           \<lparr>chunk = ''c'', now = 2, deliver_ok = True\<rparr>]
      (init_loop \<lparr>fs = Map.empty, edits = [], logged = []\<rparr>))))))"
proof -
  let ?a = "\<lparr>url = ''u'', chat_id = 1, message_id = 2, user_mention = ''m'', user_id = 3\<rparr>"
  let ?c = "\<lparr>c_args = ?a, c_start_time = 0, c_video_title = ''v'',
             c_video_path = ''Videos/v.mp4'', c_total_length = 20\<rparr>"
  let ?evs = "[\<lparr>chunk = ''ab'', now = 1, deliver_ok = False\<rparr>,
               \<lparr>chunk = ''c'', now = 2, deliver_ok = True\<rparr>]"
  let ?st = "\<lparr>fs = Map.empty, edits = [], logged = []\<rparr>"
  have u: "[0..<2] = [0, 1::nat]" by (simp add: upt_conv_Cons)
  show ?thesis
    using percentages_nondecreasing [of ?c Eof ?evs ?st] u
    by (simp add: received_def del: iter_content.simps)
qed

text \<open>
  C5 as stated fails for a server that declares a negative length: with
  \<^verbatim>\<open>content-length: -5\<close> and chunks of 3 and 2 bytes the percentages computed are -60 and
  then -100.
\<close>

theorem percentages_counterexample:
  "computed (snd (iter_content
      \<lparr>c_args = \<lparr>url = ''u'', chat_id = 1, message_id = 2, user_mention = ''m'', user_id = 3\<rparr>,
       c_start_time = 0, c_video_title = ''v'', c_video_path = ''Videos/v.mp4'',
       c_total_length = - 5\<rparr>
      Eof [\<lparr>chunk = ''abc'', now = 1, deliver_ok = True\<rparr>,
           \<lparr>chunk = ''de'', now = 2, deliver_ok = True\<rparr>]
      (init_loop \<lparr>fs = Map.empty, edits = [], logged = []\<rparr>))) = [- 60, - 100]
   \<and> \<not> sorted [- 60, - 100 :: rat]"
  by (simp add: step_nonzero Let_def init_loop_def float_sub_def)

text \<open>
  C7. A progress notification that cannot be delivered does not abort the transfer. When
  the link resolves, the file opens, the response has status 200 and a declared total other
  than 0, and the body is read to its end, then whatever deliveries fail (the flags
  \<^verbatim>\<open>deliver_ok\<close> are arbitrary) the call returns normally, the file holds every chunk
  of the body, and the log has one warning \<^verbatim>\<open>WarnProgressFailed\<close> for each failed
  call among those the run made.
\<close>

theorem delivery_failures_swallowed:
  assumes "resolve_link w = Inr (link, title, path)" and "open_ok w"
    and "video_get w = Got vr" and "v_status_code vr = 200"
    and "content_length vr = Declared n" and "n \<noteq> 0" and "body_end vr = Eof"
  shows "fst (download_video a w st) = Inr (path, title, n)
       \<and> fs (snd (download_video a w st)) = (fs st)(path \<mapsto> concat (map chunk (body vr)))
       \<and> length (filter (\<lambda>l. l = WarnProgressFailed) (new_logged st (snd (download_video a w st))))
           = length (filter (\<lambda>c. \<not> e_ok c) (new_edits st (snd (download_video a w st))))"
proof -
  let ?it = "iter_content (ctx_of a w title path n) Eof (body vr) (init_loop (create_file path st))"
  obtain ne nl where ne: "edits (outer (snd ?it)) = edits (create_file path st) @ ne"
    "logged (outer (snd ?it)) = logged (create_file path st) @ nl"
    "length (filter (\<lambda>l. l = WarnProgressFailed) nl) = length (filter (\<lambda>c. \<not> e_ok c) ne)"
    using iter_warnings [of "ctx_of a w title path n" Eof "body vr" "create_file path st"]
    by blast
  have s: "snd (download_video a w st) = add_log (InfoDownloaded title) (outer (snd ?it))"
    by (rule download_video_completed_state [OF assms])
  have e: "edits (snd (download_video a w st)) = edits st @ ne"
    using ne(1) by (simp add: s add_log_def create_file_def)
  have l: "logged (snd (download_video a w st)) = logged st @ (nl @ [InfoDownloaded title])"
    using ne(2) by (simp add: s add_log_def create_file_def)
  have "length (filter (\<lambda>l. l = WarnProgressFailed) (new_logged st (snd (download_video a w st))))
           = length (filter (\<lambda>c. \<not> e_ok c) (new_edits st (snd (download_video a w st))))"
    using ne(3) by (simp add: new_edits_eq [OF e] new_logged_eq [OF l])
  then show ?thesis
    using download_video_declared [OF assms(1-6), of a st] assms(7) by simp
qed

theorem delivery_failures_swallowed_witness:
  "fst (download_video
     \<lparr>url = ''https://terabox.example/s/1'', chat_id = 10, message_id = 20,
      user_mention = ''m'', user_id = 30\<rparr>
     \<lparr>api_get = Got \<lparr>status_code = 200, json_body = Some (JObj [(''response'',
         JArr [JObj [(''title'', JStr ''v''),
                     (''resolutions'', JObj [(''Fast Download'', JStr ''https://d/1'')])]])])\<rparr>,
      open_ok = True,
      video_get = Got \<lparr>v_status_code = 200, content_length = Declared 5,
         body = [\<lparr>chunk = ''abc'', now = 1, deliver_ok = False\<rparr>,
                 \<lparr>chunk = ''de'', now = 2, deliver_ok = False\<rparr>],
         body_end = Eof\<rparr>,
      start_time = 0, handler_edit_ok = True\<rparr>
     \<lparr>fs = Map.empty, edits = [], logged = []\<rparr>) = Inr (''Videos/v.mp4'', ''v'', 5)"
  (is "fst (download_video ?a ?w ?st) = _")
proof -
  have r: "resolve_link ?w = Inr (JStr ''https://d/1'', ''v'', ''Videos/v.mp4'')"
    by (simp add: resolve_link_def validate_def extract_fields_def sanitize_def
          unsafe_chars_def video_path_of_def)
  show ?thesis
    using delivery_failures_swallowed [OF r, of _ 5 ?a ?st] by simp
qed

end
